theory Spec2Isabelle
  imports Complex_Main "HOL-Library.Sublist" "HOL-Library.AList"
begin

section \<open>Strings\<close>

text \<open>
  Test identifiers are Python \<open>str\<close> values; they are modelled as \<open>string\<close>. The
  identifiers the scripts receive are names of Solidity test functions, so they are
  ASCII text, and one \<open>char\<close> is one character of the identifier.

  \<open>str_in needle haystack\<close> is Python's \<^verbatim>\<open>needle in haystack\<close> on strings: the needle
  occurs as a contiguous run of the haystack. The scan tries every start position from
  the left.
\<close>

fun str_in :: "string \<Rightarrow> string \<Rightarrow> bool" where
  "str_in needle [] = (needle = [])"
| "str_in needle (c # cs) = (prefix needle (c # cs) \<or> str_in needle cs)"

section \<open>benchmark\_comparison.py: the comparator\<close>

subsection \<open>Constant tables\<close>

definition ACCOUNT_TYPES :: "string list" where
  "ACCOUNT_TYPES =
     [''IthacaAccount'',
      ''IthacaAccountWithSpendLimits'',
      ''ERC4337MinimalAccount'',
      ''CoinbaseSmartWallet'',
      ''AlchemyModularAccount'',
      ''Safe4337'',
      ''ZerodevKernel'']"

subsection \<open>Per-test comparison\<close>

text \<open>
  One value of the dictionary \<^verbatim>\<open>self.comparisons\<close>. The percentage is a Python float in
  the source; here it is an exact rational, so the model computes the quotient the
  source's expression denotes, without the rounding of binary floating point.
\<close>

record comparison =
  main :: int
  pr :: int
  absolute :: int
  percentage :: rat
  account_type :: "string option"

text \<open>\<^verbatim>\<open>calculate_change(main_val, pr_val)\<close>: the absolute and the percentage change.\<close>

definition calculate_change :: "int \<Rightarrow> int \<Rightarrow> int \<times> rat" where
  "calculate_change main_val pr_val =
     (let absolute_change = pr_val - main_val;
          percentage_change =
            (if main_val = 0 then (if pr_val > 0 then 100 else 0)
             else (of_int absolute_change / of_int main_val) * 100)
      in (absolute_change, percentage_change))"

text \<open>
  \<^verbatim>\<open>get_account_type(test_name)\<close>: the loop over \<^verbatim>\<open>ACCOUNT_TYPES\<close> returns at the first
  entry that occurs in the name, and \<^verbatim>\<open>None\<close> after the last entry.
\<close>

fun get_account_type_loop :: "string list \<Rightarrow> string \<Rightarrow> string option" where
  "get_account_type_loop [] test_name = None"
| "get_account_type_loop (acct # rest) test_name =
     (if str_in acct test_name then Some acct
      else get_account_type_loop rest test_name)"

definition get_account_type :: "string \<Rightarrow> string option" where
  "get_account_type test_name = get_account_type_loop ACCOUNT_TYPES test_name"

text \<open>
  A snapshot is the dictionary \<^verbatim>\<open>json.load\<close> returns: a map from test identifiers to
  JSON values of some type \<open>'v\<close>. The builtin \<^verbatim>\<open>int\<close> that coerces a value is a
  parameter \<open>py_int\<close> of the model, \<open>None\<close> where the builtin raises (the process then
  aborts with no output). \<^verbatim>\<open>d.get(test_name, 0)\<close> yields the integer \<open>0\<close> for an absent
  key, and \<^verbatim>\<open>int(0)\<close> is \<open>0\<close>.
\<close>

definition get_gas :: "('v \<Rightarrow> int option) \<Rightarrow> (string \<rightharpoonup> 'v) \<Rightarrow> string \<Rightarrow> int option" where
  "get_gas py_int snapshot test_name =
     (case snapshot test_name of None \<Rightarrow> Some 0 | Some v \<Rightarrow> py_int v)"

text \<open>
  The first loop of \<^verbatim>\<open>analyze\<close>. It iterates over the Python set
  \<^verbatim>\<open>set(main_data.keys()) | set(pr_data.keys())\<close>; Python does not fix the iteration
  order of a set of strings (string hashes are salted per process), so the order in
  which the loop visits the identifiers is the parameter \<open>all_tests\<close>, an enumeration of
  that set. \<^verbatim>\<open>self.comparisons\<close> is an insertion-ordered dictionary, modelled as an
  association list: assigning to a new key appends, assigning to a present key replaces
  in place (\<open>AList.update\<close>).
\<close>

fun analyze_loop ::
  "('v \<Rightarrow> int option) \<Rightarrow> (string \<rightharpoonup> 'v) \<Rightarrow> (string \<rightharpoonup> 'v) \<Rightarrow> string list \<Rightarrow>
   (string \<times> comparison) list \<Rightarrow> (string \<times> comparison) list option" where
  "analyze_loop py_int main_data pr_data [] comparisons = Some comparisons"
| "analyze_loop py_int main_data pr_data (test_name # rest) comparisons =
     (case get_gas py_int main_data test_name of
        None \<Rightarrow> None
      | Some main_gas \<Rightarrow>
         (case get_gas py_int pr_data test_name of
            None \<Rightarrow> None
          | Some pr_gas \<Rightarrow>
             if main_gas = 0 \<and> pr_gas = 0
             then analyze_loop py_int main_data pr_data rest comparisons
             else
               (case calculate_change main_gas pr_gas of
                  (abs_change, pct_change) \<Rightarrow>
                    analyze_loop py_int main_data pr_data rest
                      (AList.update test_name
                         \<lparr>main = main_gas, pr = pr_gas, absolute = abs_change,
                          percentage = pct_change,
                          account_type = get_account_type test_name\<rparr>
                         comparisons))))"

text \<open>An enumeration of the key set of the two snapshots, each key once.\<close>

definition enumerates :: "string list \<Rightarrow> (string \<rightharpoonup> 'v) \<Rightarrow> (string \<rightharpoonup> 'v) \<Rightarrow> bool" where
  "enumerates all_tests main_data pr_data \<longleftrightarrow>
     distinct all_tests \<and> set all_tests = dom main_data \<union> dom pr_data"

definition analyze_comparisons ::
  "('v \<Rightarrow> int option) \<Rightarrow> (string \<rightharpoonup> 'v) \<Rightarrow> (string \<rightharpoonup> 'v) \<Rightarrow> string list \<Rightarrow>
   (string \<times> comparison) list option" where
  "analyze_comparisons py_int main_data pr_data all_tests =
     analyze_loop py_int main_data pr_data all_tests []"

subsection \<open>Regular expressions of the category table\<close>

text \<open>
  The patterns of \<^verbatim>\<open>CATEGORIES\<close> use a small fragment of Python's \<^verbatim>\<open>re\<close> syntax: literal
  characters, a character class (\<^verbatim>\<open>[Bb]\<close>), the group \<^verbatim>\<open>(\w+)\<close>, and the anchors
  \<^verbatim>\<open>^\<close> and \<^verbatim>\<open>$\<close>. A pattern is a sequence of these atoms. On ASCII text \<^verbatim>\<open>\w\<close>
  is a letter, a digit or the underscore. Without the MULTILINE flag \<^verbatim>\<open>^\<close> matches at
  the start of the string only, and \<^verbatim>\<open>$\<close> at the end of the string or before a newline
  that ends the string.
\<close>

datatype re_atom = Bol | Eol | Ch char | Cls "char list" | WordPlus

definition lit :: "string \<Rightarrow> re_atom list" where
  "lit s = map Ch s"

definition newline :: char where
  "newline = CHR 0x0A"

definition is_word_char :: "char \<Rightarrow> bool" where
  "is_word_char c \<longleftrightarrow>
     c \<in> set ''abcdefghijklmnopqrstuvwxyzABCDEFGHIJKLMNOPQRSTUVWXYZ0123456789_''"

text \<open>
  \<open>match_here pattern at_start s\<close>: the pattern matches a prefix of \<open>s\<close>, where
  \<open>at_start\<close> says that \<open>s\<close> is the whole subject string. Whether a match exists
  does not depend on the greediness of \<^verbatim>\<open>\w+\<close>, so the group tries every length.
\<close>

fun match_here :: "re_atom list \<Rightarrow> bool \<Rightarrow> string \<Rightarrow> bool" where
  "match_here [] at_start s = True"
| "match_here (Bol # r) at_start s = (at_start \<and> match_here r at_start s)"
| "match_here (Eol # r) at_start s = ((s = [] \<or> s = [newline]) \<and> match_here r at_start s)"
| "match_here (Ch c # r) at_start [] = False"
| "match_here (Ch c # r) at_start (x # xs) = (x = c \<and> match_here r False xs)"
| "match_here (Cls cs # r) at_start [] = False"
| "match_here (Cls cs # r) at_start (x # xs) = (x \<in> set cs \<and> match_here r False xs)"
| "match_here (WordPlus # r) at_start [] = False"
| "match_here (WordPlus # r) at_start (x # xs) =
     (is_word_char x \<and> (match_here r False xs \<or> match_here (WordPlus # r) False xs))"

text \<open>\<^verbatim>\<open>re.search(pattern, s)\<close> as a truth value: a match starts at some position.\<close>

fun search_from :: "re_atom list \<Rightarrow> bool \<Rightarrow> string \<Rightarrow> bool" where
  "search_from pattern at_start [] = match_here pattern at_start []"
| "search_from pattern at_start (x # xs) =
     (match_here pattern at_start (x # xs) \<or> search_from pattern False xs)"

definition re_search :: "re_atom list \<Rightarrow> string \<Rightarrow> bool" where
  "re_search pattern s = search_from pattern True s"

record category_info =
  patterns :: "re_atom list list"
  label :: string

definition CATEGORIES :: "(string \<times> category_info) list" where
  "CATEGORIES =
     [(''single_transfer'',
        \<lparr>patterns = [Bol # lit ''testERC20Transfer_'' @ [WordPlus, Eol],
                     Bol # lit ''testNativeTransfer_'' @ [WordPlus, Eol]],
         label = ''Single Transfer Operations''\<rparr>),
      (''batch_transfer'',
        \<lparr>patterns = [Bol # lit ''testERC20Transfer_'' @ [Cls ''Bb''] @ lit ''atch100_'' @ [WordPlus],
                     Bol # lit ''testERC20Transfer_batch100_'' @ [WordPlus]],
         label = ''Batch Transfer Operations (100 txs)''\<rparr>),
      (''uniswap'',
        \<lparr>patterns = [Bol # lit ''testUniswapV2Swap_'' @ [WordPlus]],
         label = ''Uniswap V2 Swap Operations''\<rparr>),
      (''app_sponsor'',
        \<lparr>patterns = [lit ''_AppSponsor''],
         label = ''App Sponsored Transactions''\<rparr>),
      (''erc20_pay'',
        \<lparr>patterns = [lit ''_ERC20SelfPay''],
         label = ''ERC20 Self-Pay Transactions''\<rparr>)]"

text \<open>
  \<^verbatim>\<open>re.sub(r'_' + account_type + r'.*', '', test_name)\<close>. The account type is one of the
  alphanumeric names of \<^verbatim>\<open>ACCOUNT_TYPES\<close>, so it stands for itself in the pattern. Every
  match starts at an occurrence of the underscore followed by the account type and runs
  to the end of the line (\<^verbatim>\<open>.\<close> does not match a newline); the scan resumes behind it.
  \<open>skipping\<close> is true while the scan is inside a match.
\<close>

fun sub_account_suffix :: "string \<Rightarrow> bool \<Rightarrow> string \<Rightarrow> string" where
  "sub_account_suffix acct skipping [] = []"
| "sub_account_suffix acct True (c # cs) =
     (if c = newline then c # sub_account_suffix acct False cs
      else sub_account_suffix acct True cs)"
| "sub_account_suffix acct False (c # cs) =
     (if prefix (CHR ''_'' # acct) (c # cs) then sub_account_suffix acct True cs
      else c # sub_account_suffix acct False cs)"

definition base_test_of :: "string \<Rightarrow> string \<Rightarrow> string" where
  "base_test_of acct test_name = sub_account_suffix acct False test_name"

subsection \<open>Comparison against the other accounts\<close>

type_synonym accounts = "(string \<times> comparison) list"
type_synonym tests = "(string \<times> accounts) list"
type_synonym categories = "(string \<times> tests) list"

text \<open>
  The three statements that file a test: \<^verbatim>\<open>categories\<close> is a \<^verbatim>\<open>defaultdict(dict)\<close>, so
  reading an absent category creates it empty.
\<close>

definition file_test :: "string \<Rightarrow> string \<Rightarrow> string \<Rightarrow> comparison \<Rightarrow> categories \<Rightarrow> categories" where
  "file_test category_key base_test acct data cats =
     (let tsts = (case map_of cats category_key of None \<Rightarrow> [] | Some t \<Rightarrow> t);
          accs = (case map_of tsts base_test of None \<Rightarrow> [] | Some a \<Rightarrow> a)
      in AList.update category_key
           (AList.update base_test (AList.update acct data accs) tsts) cats)"

text \<open>
  The loop over the patterns of one category: at the first pattern that matches, the
  test is filed under this category and \<^verbatim>\<open>break\<close> leaves this loop.
\<close>

fun patterns_loop ::
  "re_atom list list \<Rightarrow> string \<Rightarrow> string \<Rightarrow> string \<Rightarrow> comparison \<Rightarrow> categories \<Rightarrow> categories" where
  "patterns_loop [] category_key test_name acct data cats = cats"
| "patterns_loop (pattern # rest) category_key test_name acct data cats =
     (if re_search pattern test_name
      then file_test category_key (base_test_of acct test_name) acct data cats
      else patterns_loop rest category_key test_name acct data cats)"

text \<open>The loop over \<^verbatim>\<open>CATEGORIES.items()\<close> for one test.\<close>

fun categories_loop ::
  "(string \<times> category_info) list \<Rightarrow> string \<Rightarrow> string \<Rightarrow> comparison \<Rightarrow> categories \<Rightarrow> categories" where
  "categories_loop [] test_name acct data cats = cats"
| "categories_loop ((category_key, info) # rest) test_name acct data cats =
     categories_loop rest test_name acct data
       (patterns_loop (patterns info) category_key test_name acct data cats)"

text \<open>
  The loop over \<^verbatim>\<open>self.comparisons.items()\<close>. \<^verbatim>\<open>if not account_type: continue\<close> skips
  an entry whose account type is \<^verbatim>\<open>None\<close> or the empty string.
\<close>

fun categorize_loop :: "(string \<times> comparison) list \<Rightarrow> categories \<Rightarrow> categories" where
  "categorize_loop [] cats = cats"
| "categorize_loop ((test_name, data) # rest) cats =
     (case account_type data of
        None \<Rightarrow> categorize_loop rest cats
      | Some acct \<Rightarrow>
          if acct = [] then categorize_loop rest cats
          else categorize_loop rest (categories_loop CATEGORIES test_name acct data cats))"

definition categorize :: "(string \<times> comparison) list \<Rightarrow> categories" where
  "categorize comps = categorize_loop comps []"

record savings =
  pr_savings_abs :: int
  pr_savings_pct :: rat
  main_savings_abs :: int
  main_savings_pct :: rat
  improvement :: rat

record ithaca_entry =
  ithaca :: comparison
  comparisons :: "(string \<times> savings) list"

text \<open>The body of the innermost loop: one competitor against the candidate account.\<close>

definition savings_of :: "comparison \<Rightarrow> comparison \<Rightarrow> savings" where
  "savings_of ithaca_data account_data =
     (let pr_diff_abs = pr account_data - pr ithaca_data;
          pr_diff_pct = (if pr account_data > 0
                         then (of_int pr_diff_abs / of_int (pr account_data)) * 100 else 0);
          main_diff_abs = main account_data - main ithaca_data;
          main_diff_pct = (if main account_data > 0
                           then (of_int main_diff_abs / of_int (main account_data)) * 100 else 0)
      in \<lparr>pr_savings_abs = pr_diff_abs, pr_savings_pct = pr_diff_pct,
          main_savings_abs = main_diff_abs, main_savings_pct = main_diff_pct,
          improvement = pr_diff_pct - main_diff_pct\<rparr>)"

text \<open>
  The second half of \<^verbatim>\<open>_analyze_ithaca_comparisons\<close>. The dictionaries it iterates have
  each key once, so every assignment to \<^verbatim>\<open>comparisons\<close> and to
  \<^verbatim>\<open>self.ithaca_comparisons\<close> adds a new entry at the end.
\<close>

definition competitor_savings :: "comparison \<Rightarrow> accounts \<Rightarrow> (string \<times> savings) list" where
  "competitor_savings ithaca_data accs =
     [(acct, savings_of ithaca_data account_data).
        (acct, account_data) \<leftarrow> accs, acct \<noteq> ''IthacaAccount'']"

definition entries_of_tests :: "tests \<Rightarrow> (string \<times> ithaca_entry) list" where
  "entries_of_tests tsts =
     List.map_filter
       (\<lambda>(base_test, accs).
          case map_of accs ''IthacaAccount'' of
            None \<Rightarrow> None
          | Some ithaca_data \<Rightarrow>
              Some (base_test,
                    \<lparr>ithaca = ithaca_data,
                     comparisons = competitor_savings ithaca_data accs\<rparr>))
       tsts"

definition analyze_ithaca_comparisons ::
  "(string \<times> comparison) list \<Rightarrow> (string \<times> (string \<times> ithaca_entry) list) list" where
  "analyze_ithaca_comparisons comps =
     map (\<lambda>(category_key, tsts). (category_key, entries_of_tests tsts)) (categorize comps)"

subsection \<open>The whole analysis, and notions for its properties\<close>

text \<open>The entry the loop body of \<^verbatim>\<open>analyze\<close> stores for a test with the given gas values.\<close>

definition compare_test :: "string \<Rightarrow> int \<Rightarrow> int \<Rightarrow> comparison" where
  "compare_test t m p =
     \<lparr>main = m, pr = p, absolute = fst (calculate_change m p),
      percentage = snd (calculate_change m p), account_type = get_account_type t\<rparr>"


text \<open>
  \<^verbatim>\<open>analyze\<close>: the first loop, then \<^verbatim>\<open>_analyze_ithaca_comparisons\<close>. The result is the
  pair of \<^verbatim>\<open>self.comparisons\<close> and \<^verbatim>\<open>self.ithaca_comparisons\<close>, or \<open>None\<close> when a gas
  value made \<^verbatim>\<open>int\<close> raise.
\<close>

definition analyze ::
  "('v \<Rightarrow> int option) \<Rightarrow> (string \<rightharpoonup> 'v) \<Rightarrow> (string \<rightharpoonup> 'v) \<Rightarrow> string list \<Rightarrow>
   ((string \<times> comparison) list \<times> (string \<times> (string \<times> ithaca_entry) list) list) option" where
  "analyze py_int main_data pr_data all_tests =
     (case analyze_comparisons py_int main_data pr_data all_tests of
        None \<Rightarrow> None
      | Some comps \<Rightarrow> Some (comps, analyze_ithaca_comparisons comps))"

text \<open>
  The entries filed in the nested dictionary \<^verbatim>\<open>categories\<close>, as quadruples of category
  key, base test, account type and comparison data.
\<close>

definition filed_entries :: "categories \<Rightarrow> (string \<times> string \<times> string \<times> comparison) set" where
  "filed_entries cats =
     {(category_key, base_test, acct, data).
        \<exists>tsts accs. (category_key, tsts) \<in> set cats \<and> (base_test, accs) \<in> set tsts \<and>
                    (acct, data) \<in> set accs}"

text \<open>A category has a pattern that matches the test name.\<close>

definition category_matches :: "category_info \<Rightarrow> string \<Rightarrow> bool" where
  "category_matches info test_name \<longleftrightarrow> (\<exists>pattern \<in> set (patterns info). re_search pattern test_name)"

text \<open>
  The nested dictionary \<^verbatim>\<open>categories\<close> has an entry for the account type under the base
  test under the category.
\<close>

definition is_filed :: "categories \<Rightarrow> string \<Rightarrow> string \<Rightarrow> string \<Rightarrow> bool" where
  "is_filed cats category_key base_test acct \<longleftrightarrow>
     (\<exists>tsts accs. map_of cats category_key = Some tsts \<and> map_of tsts base_test = Some accs \<and>
                 map_of accs acct \<noteq> None)"

subsection \<open>The JSON artifact\<close>

record summary =
  total_tests :: nat
  ithaca_tests :: nat
  improvements :: nat
  regressions :: nat

text \<open>
  The dictionary \<^verbatim>\<open>generate_json_data\<close> returns; its keys \<^verbatim>\<open>comparisons\<close>,
  \<^verbatim>\<open>ithaca_comparisons\<close> and \<^verbatim>\<open>summary\<close> carry the prefix \<open>json_\<close> here.
\<close>

record json_data =
  json_comparisons :: "(string \<times> comparison) list"
  json_ithaca_comparisons :: "(string \<times> (string \<times> ithaca_entry) list) list"
  json_summary :: summary

definition generate_json_data ::
  "(string \<times> comparison) list \<Rightarrow> (string \<times> (string \<times> ithaca_entry) list) list \<Rightarrow> json_data" where
  "generate_json_data comps ithaca_comps =
     \<lparr>json_comparisons = comps,
      json_ithaca_comparisons = ithaca_comps,
      json_summary =
        \<lparr>total_tests = length comps,
         ithaca_tests = length [t. (t, d) \<leftarrow> comps, str_in ''IthacaAccount'' t],
         improvements = length [t. (t, d) \<leftarrow> comps, percentage d < - 1],
         regressions = length [t. (t, d) \<leftarrow> comps, percentage d > 5]\<rparr>\<rparr>"

text \<open>
  The summary counts recomputed from a comparisons map as the specification words them:
  the number of tests, of tests whose identifier contains the candidate account, of
  tests that improved by more than one percent, and of tests that regressed by more
  than five percent.
\<close>

definition recomputed_summary :: "(string \<rightharpoonup> comparison) \<Rightarrow> summary" where
  "recomputed_summary m =
     \<lparr>total_tests = card (dom m),
      ithaca_tests = card {t \<in> dom m. sublist ''IthacaAccount'' t},
      improvements = card {t. \<exists>d. m t = Some d \<and> percentage d < - 1},
      regressions = card {t. \<exists>d. m t = Some d \<and> percentage d > 5}\<rparr>"

subsection \<open>The markdown report\<close>

text \<open>
  The summary block of \<^verbatim>\<open>generate_markdown_report\<close>: the four numbers it prints, and
  \<open>None\<close> when \<^verbatim>\<open>ithaca_tests\<close> is empty and the block is left out. The source keeps the
  test names and reads \<^verbatim>\<open>self.comparisons[t]\<close> again; a dictionary has each key once, so
  that is the data of the same item.
\<close>

record summary_block =
  block_tests :: nat
  block_avg_change :: rat
  block_improvements :: nat
  block_regressions :: nat

definition summary_block_of :: "(string \<times> comparison) list \<Rightarrow> summary_block option" where
  "summary_block_of comps =
     (let ithaca_tests = [(t, d). (t, d) \<leftarrow> comps, str_in ''IthacaAccount'' t]
      in if ithaca_tests = [] then None
         else Some
           \<lparr>block_tests = length ithaca_tests,
            block_avg_change =
              sum_list [percentage d. (t, d) \<leftarrow> ithaca_tests] / of_nat (length ithaca_tests),
            block_improvements = length [t. (t, d) \<leftarrow> ithaca_tests, percentage d < 0],
            block_regressions = length [t. (t, d) \<leftarrow> ithaca_tests, percentage d > 5]\<rparr>)"

text \<open>
  The rows of the table of gas changes, in the order they are printed: \<^verbatim>\<open>sorted\<close> is
  stable, and so is \<open>sort_key\<close>.
\<close>

definition ithaca_sorted :: "(string \<times> comparison) list \<Rightarrow> (string \<times> comparison) list" where
  "ithaca_sorted comps =
     sort_key (\<lambda>x. percentage (snd x)) [(t, d). (t, d) \<leftarrow> comps, str_in ''IthacaAccount'' t]"

section \<open>check\_regressions.py: the gate\<close>

text \<open>
  The dictionaries appended to \<^verbatim>\<open>warnings\<close> and \<^verbatim>\<open>regressions\<close>. A warning holds the keys
  \<^verbatim>\<open>test\<close>, \<^verbatim>\<open>change\<close> and \<^verbatim>\<open>absolute\<close>; a regression holds \<^verbatim>\<open>main\<close> and \<^verbatim>\<open>pr\<close> as well. The
  gas fields carry the prefix \<open>gas_\<close> here.
\<close>

record finding =
  test :: string
  change :: rat
  gas_absolute :: int

record regression = finding +
  gas_main :: int
  gas_pr :: int

text \<open>The loop over \<^verbatim>\<open>comparisons.items()\<close> with its two result lists.\<close>

fun check_loop ::
  "rat \<Rightarrow> (string \<times> comparison) list \<Rightarrow> regression list \<Rightarrow> finding list \<Rightarrow>
   regression list \<times> finding list" where
  "check_loop threshold [] regs warns = (regs, warns)"
| "check_loop threshold ((test_name, test_data) # rest) regs warns =
     (if \<not> str_in ''IthacaAccount'' test_name then check_loop threshold rest regs warns
      else
        let pct_change = percentage test_data in
        if pct_change > threshold
        then check_loop threshold rest
               (regs @ [\<lparr>test = test_name, change = pct_change,
                          gas_absolute = absolute test_data,
                          gas_main = main test_data, gas_pr = pr test_data\<rparr>])
               warns
        else if pct_change > threshold / 2
        then check_loop threshold rest regs
               (warns @ [\<lparr>test = test_name, change = pct_change,
                           gas_absolute = absolute test_data\<rparr>])
        else check_loop threshold rest regs warns)"

text \<open>The line printed about the mean change, if any.\<close>

datatype verdict = Overall_improvement rat | Overall_increase rat | No_verdict

definition overall_verdict :: "(string \<times> comparison) list \<Rightarrow> verdict" where
  "overall_verdict comps =
     (let ithaca_tests = [(t, d). (t, d) \<leftarrow> comps, str_in ''IthacaAccount'' t]
      in if ithaca_tests = [] then No_verdict
         else
           let avg_change =
                 sum_list [percentage d. (t, d) \<leftarrow> ithaca_tests] / of_nat (length ithaca_tests)
           in if avg_change < - 1 then Overall_improvement \<bar>avg_change\<bar>
              else if avg_change > 1 then Overall_increase avg_change
              else No_verdict)"

text \<open>
  What one run of the gate yields: the exit code, and what it prints (the regressions,
  the warnings and the verdict on the mean).
\<close>

record gate_result =
  exit_code :: int
  found_regressions :: "regression list"
  found_warnings :: "finding list"
  mean_verdict :: verdict

text \<open>
  \<^verbatim>\<open>check_regressions(data_file, threshold)\<close>, from the loaded JSON document on. The
  argument is the member \<^verbatim>\<open>comparisons\<close> of the document, \<open>None\<close> when the document has
  none (\<^verbatim>\<open>data.get('comparisons', {})\<close>).
\<close>

definition check_regressions :: "(string \<times> comparison) list option \<Rightarrow> rat \<Rightarrow> gate_result" where
  "check_regressions data_comparisons threshold =
     (let comps = (case data_comparisons of None \<Rightarrow> [] | Some c \<Rightarrow> c);
          (regs, warns) = check_loop threshold comps [] []
      in \<lparr>exit_code = (if regs \<noteq> [] then 1 else 0),
          found_regressions = regs,
          found_warnings = warns,
          mean_verdict = overall_verdict comps\<rparr>)"

text \<open>The three classes of the gate, for a candidate-account test with the given change.\<close>

datatype gate_class = Regression | Warning | Ok

definition classified :: "gate_result \<Rightarrow> string \<Rightarrow> gate_class" where
  "classified r test_name =
     (if test_name \<in> test ` set (found_regressions r) then Regression
      else if test_name \<in> test ` set (found_warnings r) then Warning
      else Ok)"

section \<open>generate\_charts.py: the chart generator\<close>

text \<open>\<^verbatim>\<open>str.lower\<close> on ASCII text.\<close>

definition lower_char :: "char \<Rightarrow> char" where
  "lower_char c =
     (case map_of (zip ''ABCDEFGHIJKLMNOPQRSTUVWXYZ'' ''abcdefghijklmnopqrstuvwxyz'') c of
        None \<Rightarrow> c
      | Some l \<Rightarrow> l)"

definition lower :: "string \<Rightarrow> string" where
  "lower s = map lower_char s"

text \<open>The table \<^verbatim>\<open>operation_types\<close> of \<^verbatim>\<open>main\<close>: a name and a filter on test names.\<close>

definition operation_types :: "(string \<times> (string \<Rightarrow> bool)) list" where
  "operation_types =
     [(''single_erc20'',
         \<lambda>t. str_in ''testERC20Transfer_'' t \<and> \<not> str_in ''batch'' (lower t) \<and>
             \<not> str_in ''Sponsor'' t \<and> \<not> str_in ''ERC20SelfPay'' t),
      (''batch_erc20'',
         \<lambda>t. (str_in ''batch100'' (lower t) \<or> str_in ''Batch100'' t) \<and> str_in ''ERC20Transfer'' t),
      (''uniswap'', \<lambda>t. str_in ''UniswapV2Swap'' t),
      (''native'', \<lambda>t. str_in ''testNativeTransfer'' t)]"

definition chart_titles :: "(string \<times> string) list" where
  "chart_titles =
     [(''single_erc20'', ''Single ERC20 Transfer - Gas Comparison''),
      (''batch_erc20'', ''Batch ERC20 Transfer (100 txs) - Gas Comparison''),
      (''uniswap'', ''Uniswap V2 Swap - Gas Comparison''),
      (''native'', ''Native ETH Transfer - Gas Comparison'')]"

text \<open>
  The loop that fills \<^verbatim>\<open>chart_data\<close> for one filter. An entry counts when the filter
  accepts its name and its account type is neither \<^verbatim>\<open>None\<close> nor empty.
\<close>

fun chart_data_loop ::
  "(string \<Rightarrow> bool) \<Rightarrow> (string \<times> comparison) list \<Rightarrow> (string \<times> int) list \<Rightarrow> (string \<times> int) list" where
  "chart_data_loop filter_func [] chart_data = chart_data"
| "chart_data_loop filter_func ((test_name, test_data) # rest) chart_data =
     (case account_type test_data of
        None \<Rightarrow> chart_data_loop filter_func rest chart_data
      | Some account \<Rightarrow>
          if filter_func test_name \<and> account \<noteq> []
          then (case map_of chart_data account of
                  None \<Rightarrow>
                    chart_data_loop filter_func rest (AList.update account (pr test_data) chart_data)
                | Some gas \<Rightarrow>
                    if pr test_data < gas
                    then chart_data_loop filter_func rest
                           (AList.update account (pr test_data) chart_data)
                    else chart_data_loop filter_func rest chart_data)
          else chart_data_loop filter_func rest chart_data)"

definition chart_data_of :: "(string \<Rightarrow> bool) \<Rightarrow> (string \<times> comparison) list \<Rightarrow> (string \<times> int) list" where
  "chart_data_of filter_func comps = chart_data_loop filter_func comps []"

text \<open>
  \<^verbatim>\<open>generate_svg_bar_chart(data, title)\<close> up to the drawing: the document is either the
  empty string or a chart, given by its title, its bars from left to right (account and
  value, ascending by value) and the maximum that scales the value axis. The text of the
  SVG elements is not modelled.
\<close>

datatype svg = Empty_document | Bar_chart string "(string \<times> int) list" int

definition generate_svg_bar_chart :: "(string \<times> int) list \<Rightarrow> string \<Rightarrow> svg" where
  "generate_svg_bar_chart data title =
     (let items = sort_key snd data;
          accounts = map fst items;
          vals = map snd items;
          max_value = fold (\<lambda>gas m. max m gas) vals 0
      in if accounts = [] then Empty_document
         else Bar_chart title (zip accounts vals) max_value)"

text \<open>
  The loop of \<^verbatim>\<open>main\<close> over \<^verbatim>\<open>operation_types\<close>: the chart files written, as pairs of file
  name and document, in the order they are written.
\<close>

fun charts_loop :: "(string \<times> (string \<Rightarrow> bool)) list \<Rightarrow> (string \<times> comparison) list \<Rightarrow> (string \<times> svg) list" where
  "charts_loop [] comps = []"
| "charts_loop ((op_name, filter_func) # rest) comps =
     (let chart_data = chart_data_of filter_func comps
      in if chart_data \<noteq> []
         then (op_name @ ''_chart.svg'',
               generate_svg_bar_chart chart_data
                 (case map_of chart_titles op_name of None \<Rightarrow> op_name | Some title \<Rightarrow> title))
              # charts_loop rest comps
         else charts_loop rest comps)"

definition chart_files :: "(string \<times> comparison) list \<Rightarrow> (string \<times> svg) list" where
  "chart_files comps = charts_loop operation_types comps"

text \<open>
  The PR-side gas values of the entries a filter accepts for one account type.
\<close>

definition matching_gas :: "(string \<Rightarrow> bool) \<Rightarrow> (string \<times> comparison) list \<Rightarrow> string \<Rightarrow> int set" where
  "matching_gas filter_func comps account =
     {pr d |t d. (t, d) \<in> set comps \<and> filter_func t \<and> account_type d = Some account}"

section \<open>Example inputs\<close>

text \<open>A comparisons object for the gate: three candidate-account tests and a competitor.\<close>

definition gate_example :: "(string \<times> comparison) list" where
  "gate_example =
     [(''testERC20Transfer_IthacaAccount'',
         \<lparr>main = 100, pr = 106, absolute = 6, percentage = 6,
          account_type = Some ''IthacaAccount''\<rparr>),
      (''testNativeTransfer_IthacaAccount'',
         \<lparr>main = 100, pr = 103, absolute = 3, percentage = 3,
          account_type = Some ''IthacaAccount''\<rparr>),
      (''testUniswapV2Swap_IthacaAccount'',
         \<lparr>main = 100, pr = 50, absolute = - 50, percentage = - 50,
          account_type = Some ''IthacaAccount''\<rparr>),
      (''testERC20Transfer_Safe4337'',
         \<lparr>main = 100, pr = 140, absolute = 40, percentage = 40,
          account_type = Some ''Safe4337''\<rparr>)]"

text \<open>
  A test of the candidate account that is sponsored by an application, with its
  comparison data for 100 gas on main and 120 gas on the PR.
\<close>

definition sponsored_test :: string where
  "sponsored_test = ''testERC20Transfer_IthacaAccount_AppSponsor''"

definition sponsored_data :: comparison where
  "sponsored_data =
     \<lparr>main = 100, pr = 120, absolute = 20, percentage = 20,
      account_type = Some ''IthacaAccount''\<rparr>"


text \<open>
  Snapshots with a test of the account with spend limits and a test of a competitor, and
  the comparisons they give.
\<close>

definition limits_main :: "string \<rightharpoonup> int" where
  "limits_main = [''testERC20Transfer_IthacaAccountWithSpendLimits'' \<mapsto> 100,
                  ''testERC20Transfer_Safe4337'' \<mapsto> 200]"

definition limits_pr :: "string \<rightharpoonup> int" where
  "limits_pr = [''testERC20Transfer_IthacaAccountWithSpendLimits'' \<mapsto> 90,
                ''testERC20Transfer_Safe4337'' \<mapsto> 180]"

definition limits_tests :: "string list" where
  "limits_tests = [''testERC20Transfer_IthacaAccountWithSpendLimits'', ''testERC20Transfer_Safe4337'']"

definition limits_comps :: "(string \<times> comparison) list" where
  "limits_comps =
     [(''testERC20Transfer_IthacaAccountWithSpendLimits'',
       \<lparr>main = 100, pr = 90, absolute = - 10, percentage = - 10,
        account_type = Some ''IthacaAccount''\<rparr>),
      (''testERC20Transfer_Safe4337'',
       \<lparr>main = 200, pr = 180, absolute = - 20, percentage = - 10,
        account_type = Some ''Safe4337''\<rparr>)]"

text \<open>
  A comparisons dictionary on which the two summaries differ: a candidate-account test
  that improves by half a percent, a competitor and a test without account type that
  improve by more than one percent, and a competitor that regresses.
\<close>

definition differ_example :: "(string \<times> comparison) list" where
  "differ_example =
     [(''testERC20Transfer_IthacaAccount'',
       \<lparr>main = 200, pr = 199, absolute = - 1, percentage = - 1 / 2,
        account_type = Some ''IthacaAccount''\<rparr>),
      (''testERC20Transfer_Safe4337'',
       \<lparr>main = 100, pr = 90, absolute = - 10, percentage = - 10,
        account_type = Some ''Safe4337''\<rparr>),
      (''testHelperGas'',
       \<lparr>main = 100, pr = 50, absolute = - 50, percentage = - 50, account_type = None\<rparr>),
      (''testNativeTransfer_ZerodevKernel'',
       \<lparr>main = 100, pr = 140, absolute = 40, percentage = 40,
        account_type = Some ''ZerodevKernel''\<rparr>)]"

text \<open>
  A comparisons object for the charts: two transfer tests of the candidate account and
  one of a competitor, and no swap test.
\<close>

definition chart_example :: "(string \<times> comparison) list" where
  "chart_example =
     [(''testERC20Transfer_IthacaAccount'',
       \<lparr>main = 100, pr = 80, absolute = - 20, percentage = - 20,
        account_type = Some ''IthacaAccount''\<rparr>),
      (''testERC20Transfer_IthacaAccount_Passkey'',
       \<lparr>main = 100, pr = 70, absolute = - 30, percentage = - 30,
        account_type = Some ''IthacaAccount''\<rparr>),
      (''testERC20Transfer_Safe4337'',
       \<lparr>main = 200, pr = 160, absolute = - 40, percentage = - 20,
        account_type = Some ''Safe4337''\<rparr>)]"

text \<open>
  Snapshots with two tests of the candidate account that change by the same percentage
  and share base test and account type, and what \<^verbatim>\<open>analyze\<close> yields when the loop visits
  the first test first, and when it visits the second test first.
\<close>

definition tie_main :: "string \<rightharpoonup> int" where
  "tie_main = [''testERC20Transfer_IthacaAccount'' \<mapsto> 100,
               ''testERC20Transfer_IthacaAccountWithSpendLimits'' \<mapsto> 200]"

definition tie_pr :: "string \<rightharpoonup> int" where
  "tie_pr = [''testERC20Transfer_IthacaAccount'' \<mapsto> 110,
             ''testERC20Transfer_IthacaAccountWithSpendLimits'' \<mapsto> 220]"

definition tie_first :: "string \<times> comparison" where
  "tie_first =
     (''testERC20Transfer_IthacaAccount'',
      \<lparr>main = 100, pr = 110, absolute = 10, percentage = 10,
       account_type = Some ''IthacaAccount''\<rparr>)"

definition tie_second :: "string \<times> comparison" where
  "tie_second =
     (''testERC20Transfer_IthacaAccountWithSpendLimits'',
      \<lparr>main = 200, pr = 220, absolute = 20, percentage = 10,
       account_type = Some ''IthacaAccount''\<rparr>)"

section \<open>Facts about strings\<close>

lemma str_in_iff_sublist: "str_in needle haystack \<longleftrightarrow> sublist needle haystack"
  by (induction haystack) (simp_all add: sublist_Cons_right)

lemma str_in_trans: "str_in a b \<Longrightarrow> str_in b c \<Longrightarrow> str_in a c"
proof -
  assume "str_in a b" and "str_in b c"
  then obtain p1 s1 p2 s2 where "b = p1 @ a @ s1" and "c = p2 @ b @ s2"
    unfolding str_in_iff_sublist sublist_def by blast
  then have "c = (p2 @ p1) @ a @ (s1 @ s2)"
    by simp
  then show "str_in a c"
    unfolding str_in_iff_sublist sublist_def by blast
qed

section \<open>The first loop of analyze\<close>


lemma analyze_loop_step:
  "get_gas py_int main_data u = Some m \<Longrightarrow> get_gas py_int pr_data u = Some p \<Longrightarrow>
   analyze_loop py_int main_data pr_data (u # ts) acc =
     analyze_loop py_int main_data pr_data ts
       (if m = 0 \<and> p = 0 then acc else AList.update u (compare_test u m p) acc)"
  by (simp add: compare_test_def split: prod.splits)

lemma analyze_loop_Some_gas:
  "analyze_loop py_int main_data pr_data (u # ts) acc = Some comps \<Longrightarrow>
   \<exists>m p. get_gas py_int main_data u = Some m \<and> get_gas py_int pr_data u = Some p"
  by (cases "get_gas py_int main_data u"; cases "get_gas py_int pr_data u") simp_all


lemma analyze_loop_lookup:
  "analyze_loop py_int main_data pr_data ts acc = Some comps \<Longrightarrow>
   get_gas py_int main_data t = Some m \<Longrightarrow> get_gas py_int pr_data t = Some p \<Longrightarrow>
   map_of comps t =
     (if t \<in> set ts \<and> \<not> (m = 0 \<and> p = 0) then Some (compare_test t m p) else map_of acc t)"
proof (induction ts arbitrary: acc)
  case Nil
  then show ?case by simp
next
  case (Cons u ts)
  obtain m' p' where g: "get_gas py_int main_data u = Some m'" "get_gas py_int pr_data u = Some p'"
    using analyze_loop_Some_gas [OF Cons.prems(1)] by blast
  let ?acc = "if m' = 0 \<and> p' = 0 then acc else AList.update u (compare_test u m' p') acc"
  have run: "analyze_loop py_int main_data pr_data ts ?acc = Some comps"
    using Cons.prems(1) unfolding analyze_loop_step [OF g] .
  have ih: "map_of comps t =
     (if t \<in> set ts \<and> \<not> (m = 0 \<and> p = 0) then Some (compare_test t m p) else map_of ?acc t)"
    by (rule Cons.IH [OF run Cons.prems(2,3)])
  show ?case
  proof (cases "u = t")
    case True
    then have "m' = m" "p' = p" using g Cons.prems(2,3) by simp_all
    with True ih show ?thesis by (simp add: update_conv')
  next
    case False
    with ih show ?thesis by (auto simp: update_conv')
  qed
qed

lemma analyze_loop_distinct:
  "analyze_loop py_int main_data pr_data ts acc = Some comps \<Longrightarrow>
   distinct (map fst acc) \<Longrightarrow> distinct (map fst comps)"
proof (induction ts arbitrary: acc)
  case Nil
  then show ?case by simp
next
  case (Cons u ts)
  obtain m' p' where g: "get_gas py_int main_data u = Some m'" "get_gas py_int pr_data u = Some p'"
    using analyze_loop_Some_gas [OF Cons.prems(1)] by blast
  let ?acc = "if m' = 0 \<and> p' = 0 then acc else AList.update u (compare_test u m' p') acc"
  have run: "analyze_loop py_int main_data pr_data ts ?acc = Some comps"
    using Cons.prems(1) unfolding analyze_loop_step [OF g] .
  have "distinct (map fst ?acc)"
    using Cons.prems(2) by (simp add: distinct_update)
  then show ?case by (rule Cons.IH [OF run])
qed



section \<open>Account-type resolution\<close>

lemma get_account_type_loop_find:
  "get_account_type_loop xs n = List.find (\<lambda>a. str_in a n) xs"
  by (induction xs) simp_all

text \<open>
  Claim C4. \<^verbatim>\<open>ACCOUNT_TYPES\<close> has seven entries. \<^verbatim>\<open>get_account_type\<close> returns the entry at the
  least index that occurs as a substring of the identifier (\<open>sublist\<close>: the identifier
  is some prefix, the entry, some suffix), and \<^verbatim>\<open>None\<close> exactly when no entry occurs. An
  identifier containing both \<^verbatim>\<open>IthacaAccount\<close> and \<^verbatim>\<open>IthacaAccountWithSpendLimits\<close>
  resolves to \<^verbatim>\<open>IthacaAccount\<close>, the one declared first.
\<close>

theorem get_account_type_first_match:
  "length ACCOUNT_TYPES = 7 \<and>
   (get_account_type test_name = Some a \<longleftrightarrow>
      (\<exists>i < length ACCOUNT_TYPES. ACCOUNT_TYPES ! i = a \<and> sublist a test_name \<and>
         (\<forall>j < i. \<not> sublist (ACCOUNT_TYPES ! j) test_name))) \<and>
   (get_account_type test_name = None \<longleftrightarrow> (\<forall>a \<in> set ACCOUNT_TYPES. \<not> sublist a test_name)) \<and>
   (sublist ''IthacaAccount'' test_name \<and> sublist ''IthacaAccountWithSpendLimits'' test_name \<longrightarrow>
      get_account_type test_name = Some ''IthacaAccount'')"
proof -
  have len: "length ACCOUNT_TYPES = 7"
    by (simp add: ACCOUNT_TYPES_def)
  have some: "get_account_type test_name = Some a \<longleftrightarrow>
      (\<exists>i < length ACCOUNT_TYPES. ACCOUNT_TYPES ! i = a \<and> sublist a test_name \<and>
         (\<forall>j < i. \<not> sublist (ACCOUNT_TYPES ! j) test_name))"
    unfolding get_account_type_def get_account_type_loop_find find_Some_iff str_in_iff_sublist
    by auto
  have none: "get_account_type test_name = None \<longleftrightarrow>
      (\<forall>a \<in> set ACCOUNT_TYPES. \<not> sublist a test_name)"
    unfolding get_account_type_def get_account_type_loop_find find_None_iff str_in_iff_sublist
    by auto
  have first: "get_account_type test_name = Some ''IthacaAccount''"
    if "sublist ''IthacaAccount'' test_name"
    using that unfolding get_account_type_def ACCOUNT_TYPES_def
    by (simp add: str_in_iff_sublist)
  from len some none first show ?thesis
    by blast
qed

theorem get_account_type_first_match_witness:
  "sublist ''IthacaAccount'' ''testERC20Transfer_IthacaAccountWithSpendLimits'' \<and>
   sublist ''IthacaAccountWithSpendLimits'' ''testERC20Transfer_IthacaAccountWithSpendLimits'' \<and>
   get_account_type ''testERC20Transfer_IthacaAccountWithSpendLimits'' = Some ''IthacaAccount''"
proof -
  have a: "sublist ''IthacaAccount'' ''testERC20Transfer_IthacaAccountWithSpendLimits''"
    unfolding str_in_iff_sublist [symmetric] by simp
  have b: "sublist ''IthacaAccountWithSpendLimits'' ''testERC20Transfer_IthacaAccountWithSpendLimits''"
    unfolding str_in_iff_sublist [symmetric] by simp
  show ?thesis
    using a b get_account_type_first_match [of "''testERC20Transfer_IthacaAccountWithSpendLimits''"]
    by blast
qed

lemma with_spend_limits_contains: "str_in ''IthacaAccount'' ''IthacaAccountWithSpendLimits''"
  by simp

lemma get_account_type_loop_member:
  "get_account_type_loop xs n = Some a \<Longrightarrow> a \<in> set xs \<and> str_in a n"
  by (induction xs) (auto split: if_splits)

lemma never_with_spend_limits:
  "get_account_type n \<noteq> Some ''IthacaAccountWithSpendLimits''"
proof
  assume r: "get_account_type n = Some ''IthacaAccountWithSpendLimits''"
  then have "str_in ''IthacaAccountWithSpendLimits'' n"
    unfolding get_account_type_def by (rule get_account_type_loop_member [THEN conjunct2])
  then have "str_in ''IthacaAccount'' n"
    by (rule str_in_trans [OF with_spend_limits_contains])
  then have "get_account_type n = Some ''IthacaAccount''"
    by (simp add: get_account_type_def ACCOUNT_TYPES_def)
  with r show False by simp
qed

section \<open>The gate\<close>

lemma check_loop_regressions:
  "test ` set (fst (check_loop threshold comps regs warns)) =
     test ` set regs \<union>
     {name. \<exists>d. (name, d) \<in> set comps \<and> str_in ''IthacaAccount'' name \<and> percentage d > threshold}"
proof (induction comps arbitrary: regs warns)
  case Nil
  show ?case by simp
next
  case (Cons x comps)
  obtain name d where x: "x = (name, d)" by (cases x)
  show ?case
    unfolding x by (auto simp: Cons.IH Let_def)
qed

lemma check_loop_warnings:
  "test ` set (snd (check_loop threshold comps regs warns)) =
     test ` set warns \<union>
     {name. \<exists>d. (name, d) \<in> set comps \<and> str_in ''IthacaAccount'' name \<and>
                 \<not> percentage d > threshold \<and> percentage d > threshold / 2}"
proof (induction comps arbitrary: regs warns)
  case Nil
  show ?case by simp
next
  case (Cons x comps)
  obtain name d where x: "x = (name, d)" by (cases x)
  show ?case
    unfolding x by (auto simp: Cons.IH Let_def)
qed

lemma found_regressions_iff:
  "name \<in> test ` set (found_regressions (check_regressions (Some comps) threshold)) \<longleftrightarrow>
     (\<exists>d. (name, d) \<in> set comps \<and> sublist ''IthacaAccount'' name \<and> percentage d > threshold)"
  using check_loop_regressions [of threshold comps "[]" "[]"]
  by (auto simp: check_regressions_def str_in_iff_sublist split: prod.splits)

lemma found_warnings_iff:
  "name \<in> test ` set (found_warnings (check_regressions (Some comps) threshold)) \<longleftrightarrow>
     (\<exists>d. (name, d) \<in> set comps \<and> sublist ''IthacaAccount'' name \<and>
          \<not> percentage d > threshold \<and> percentage d > threshold / 2)"
  using check_loop_warnings [of threshold comps "[]" "[]"]
  by (auto simp: check_regressions_def str_in_iff_sublist split: prod.splits)

lemma exit_code_iff:
  "exit_code (check_regressions (Some comps) threshold) = 1 \<longleftrightarrow>
     found_regressions (check_regressions (Some comps) threshold) \<noteq> []"
  by (simp add: check_regressions_def split: prod.splits)

lemma exit_code_range:
  "exit_code (check_regressions data threshold) =
     (if found_regressions (check_regressions data threshold) = [] then 0 else 1)"
  by (simp add: check_regressions_def Let_def split: prod.splits)

text \<open>
  Claim C2. For a comparison document whose \<^verbatim>\<open>comparisons\<close> object has each test once and
  for every threshold, a test whose identifier contains \<^verbatim>\<open>IthacaAccount\<close> is reported as
  a regression exactly when its percentage is greater than the threshold, as a warning
  exactly when it is greater than half the threshold and at most the threshold, and not
  reported otherwise. The exit code is 1 exactly when some such test is a regression and
  0 exactly when none is; it is fixed by the regressions alone, whatever the verdict on
  the mean.
\<close>

theorem gate_classification:
  assumes "distinct (map fst comps)"
  shows "(\<forall>(name, d) \<in> set comps. sublist ''IthacaAccount'' name \<longrightarrow>
            (classified (check_regressions (Some comps) threshold) name = Regression
               \<longleftrightarrow> percentage d > threshold) \<and>
            (classified (check_regressions (Some comps) threshold) name = Warning
               \<longleftrightarrow> percentage d > threshold / 2 \<and> percentage d \<le> threshold) \<and>
            (classified (check_regressions (Some comps) threshold) name = Ok
               \<longleftrightarrow> \<not> percentage d > threshold \<and>
                   \<not> (percentage d > threshold / 2 \<and> percentage d \<le> threshold))) \<and>
         (exit_code (check_regressions (Some comps) threshold) = 1 \<longleftrightarrow>
            (\<exists>(name, d) \<in> set comps. sublist ''IthacaAccount'' name \<and> percentage d > threshold)) \<and>
         (exit_code (check_regressions (Some comps) threshold) = 0 \<longleftrightarrow>
            \<not> (\<exists>(name, d) \<in> set comps. sublist ''IthacaAccount'' name \<and> percentage d > threshold))"
proof -
  let ?r = "check_regressions (Some comps) threshold"
  have unique: "d' = d" if "(name, d) \<in> set comps" "(name, d') \<in> set comps" for name d d'
    using assms that by (meson eq_key_imp_eq_value)
  have cls: "(classified ?r name = Regression \<longleftrightarrow> percentage d > threshold) \<and>
            (classified ?r name = Warning
               \<longleftrightarrow> percentage d > threshold / 2 \<and> percentage d \<le> threshold) \<and>
            (classified ?r name = Ok
               \<longleftrightarrow> \<not> percentage d > threshold \<and>
                   \<not> (percentage d > threshold / 2 \<and> percentage d \<le> threshold))"
    if mem: "(name, d) \<in> set comps" and cand: "sublist ''IthacaAccount'' name" for name d
  proof -
    have r: "name \<in> test ` set (found_regressions ?r) \<longleftrightarrow> percentage d > threshold"
      unfolding found_regressions_iff using mem cand unique by blast
    have w: "name \<in> test ` set (found_warnings ?r) \<longleftrightarrow>
               \<not> percentage d > threshold \<and> percentage d > threshold / 2"
      unfolding found_warnings_iff using mem cand unique by blast
    show ?thesis
      unfolding classified_def using r w by auto
  qed
  have nonempty: "found_regressions ?r \<noteq> [] \<longleftrightarrow>
      (\<exists>(name, d) \<in> set comps. sublist ''IthacaAccount'' name \<and> percentage d > threshold)"
  proof -
    have "found_regressions ?r \<noteq> [] \<longleftrightarrow> (\<exists>name. name \<in> test ` set (found_regressions ?r))"
      by (cases "found_regressions ?r") auto
    then show ?thesis
      unfolding found_regressions_iff by auto
  qed
  have e1: "exit_code ?r = 1 \<longleftrightarrow>
      (\<exists>(name, d) \<in> set comps. sublist ''IthacaAccount'' name \<and> percentage d > threshold)"
    unfolding exit_code_iff nonempty ..
  have e0: "exit_code ?r = 0 \<longleftrightarrow>
      \<not> (\<exists>(name, d) \<in> set comps. sublist ''IthacaAccount'' name \<and> percentage d > threshold)"
    unfolding nonempty [symmetric] exit_code_range [of "Some comps" threshold] by simp
  from cls e1 e0 show ?thesis
    by blast
qed


theorem gate_classification_witness:
  "distinct (map fst gate_example) \<and>
   classified (check_regressions (Some gate_example) 5) ''testERC20Transfer_IthacaAccount'' = Regression \<and>
   classified (check_regressions (Some gate_example) 5) ''testNativeTransfer_IthacaAccount'' = Warning \<and>
   classified (check_regressions (Some gate_example) 5) ''testUniswapV2Swap_IthacaAccount'' = Ok \<and>
   exit_code (check_regressions (Some gate_example) 5) = 1 \<and>
   mean_verdict (check_regressions (Some gate_example) 5) = Overall_improvement (41 / 3) \<and>
   exit_code (check_regressions (Some (tl gate_example)) 5) = 0 \<and>
   mean_verdict (check_regressions (Some (tl gate_example)) 5) = Overall_improvement (47 / 2) \<and>
   exit_code (check_regressions (Some (take 2 gate_example)) 5) = 1 \<and>
   mean_verdict (check_regressions (Some (take 2 gate_example)) 5) = Overall_increase (9 / 2)"
proof -
  have d: "distinct (map fst gate_example)"
    by (simp add: gate_example_def)
  have d1: "distinct (map fst (tl gate_example))"
    by (simp add: gate_example_def)
  have d2: "distinct (map fst (take 2 gate_example))"
    by (simp add: gate_example_def)
  have s1: "sublist ''IthacaAccount'' ''testERC20Transfer_IthacaAccount''"
    and s2: "sublist ''IthacaAccount'' ''testNativeTransfer_IthacaAccount''"
    and s3: "sublist ''IthacaAccount'' ''testUniswapV2Swap_IthacaAccount''"
    and s4: "\<not> sublist ''IthacaAccount'' ''testERC20Transfer_Safe4337''"
    unfolding str_in_iff_sublist [symmetric] by simp_all
  note g = gate_classification [OF d, of 5]
  have c1: "classified (check_regressions (Some gate_example) 5) ''testERC20Transfer_IthacaAccount'' = Regression"
    using g s1 by (simp add: gate_example_def)
  have c2: "classified (check_regressions (Some gate_example) 5) ''testNativeTransfer_IthacaAccount'' = Warning"
    using g s2 by (simp add: gate_example_def)
  have c3: "classified (check_regressions (Some gate_example) 5) ''testUniswapV2Swap_IthacaAccount'' = Ok"
    using g s3 by (simp add: gate_example_def)
  have e: "exit_code (check_regressions (Some gate_example) 5) = 1"
    using g s1 by (simp add: gate_example_def)
  have e1: "exit_code (check_regressions (Some (tl gate_example)) 5) = 0"
    using gate_classification [OF d1, of 5] s2 s3 s4 by (simp add: gate_example_def)
  have e2: "exit_code (check_regressions (Some (take 2 gate_example)) 5) = 1"
    using gate_classification [OF d2, of 5] s1 by (simp add: gate_example_def)
  have v: "mean_verdict (check_regressions (Some gate_example) 5) = Overall_improvement (41 / 3)"
    "mean_verdict (check_regressions (Some (tl gate_example)) 5) = Overall_improvement (47 / 2)"
    "mean_verdict (check_regressions (Some (take 2 gate_example)) 5) = Overall_increase (9 / 2)"
    by (simp_all add: check_regressions_def overall_verdict_def gate_example_def Let_def
        split: prod.splits)
  from d c1 c2 c3 e e1 e2 v show ?thesis
    by blast
qed

section \<open>Filing tests under categories\<close>

lemma set_update_cases:
  "(k', v') \<in> set (AList.update k v al) \<Longrightarrow> (k', v') = (k, v) \<or> (k', v') \<in> set al"
  by (induction al) (auto split: if_splits)

lemma filed_entries_file_test:
  "filed_entries (file_test category_key base_test acct data cats)
     \<subseteq> insert (category_key, base_test, acct, data) (filed_entries cats)"
proof
  fix x
  assume x: "x \<in> filed_entries (file_test category_key base_test acct data cats)"
  define tsts where "tsts = (case map_of cats category_key of None \<Rightarrow> [] | Some t \<Rightarrow> t)"
  define accs where "accs = (case map_of tsts base_test of None \<Rightarrow> [] | Some a \<Rightarrow> a)"
  have ft: "file_test category_key base_test acct data cats =
      AList.update category_key
        (AList.update base_test (AList.update acct data accs) tsts) cats"
    by (simp add: file_test_def tsts_def accs_def Let_def)
  have tsts_in: "(b, a) \<in> set tsts \<Longrightarrow> (category_key, tsts) \<in> set cats" for b a
    unfolding tsts_def by (auto split: option.splits dest: map_of_SomeD)
  have accs_in: "(a, d) \<in> set accs \<Longrightarrow> (base_test, accs) \<in> set tsts" for a d
    unfolding accs_def by (auto split: option.splits dest: map_of_SomeD)
  obtain k b a d where xe: "x = (k, b, a, d)"
    by (cases x) auto
  from x obtain tsts' accs' where
    m1: "(k, tsts') \<in> set (AList.update category_key
        (AList.update base_test (AList.update acct data accs) tsts) cats)" and
    m2: "(b, accs') \<in> set tsts'" and m3: "(a, d) \<in> set accs'"
    unfolding xe ft filed_entries_def by auto
  show "x \<in> insert (category_key, base_test, acct, data) (filed_entries cats)"
  proof (cases "(k, tsts') \<in> set cats")
    case True
    with m2 m3 show ?thesis
      unfolding xe filed_entries_def by auto
  next
    case False
    with set_update_cases [OF m1]
    have k: "k = category_key" and t: "tsts' = AList.update base_test (AList.update acct data accs) tsts"
      by auto
    show ?thesis
    proof (cases "(b, accs') \<in> set tsts")
      case True
      with tsts_in [OF True] m3 show ?thesis
        unfolding xe k filed_entries_def by auto
    next
      case False
      with set_update_cases [of b accs' base_test "AList.update acct data accs" tsts] m2 t
      have b: "b = base_test" and a: "accs' = AList.update acct data accs"
        by auto
      show ?thesis
      proof (cases "(a, d) \<in> set accs")
        case True
        from accs_in [OF True] tsts_in have "(category_key, tsts) \<in> set cats"
          by blast
        with accs_in [OF True] True show ?thesis
          unfolding xe k b filed_entries_def by auto
      next
        case False
        with set_update_cases [of a d acct data accs] m3 a
        show ?thesis
          unfolding xe k b by auto
      qed
    qed
  qed
qed

lemma is_filed_file_test_same:
  "is_filed (file_test category_key base_test acct data cats) category_key base_test acct"
  by (simp add: is_filed_def file_test_def Let_def update_conv')

lemma is_filed_file_test_mono:
  assumes "is_filed cats k b a"
  shows "is_filed (file_test category_key base_test acct data cats) k b a"
proof -
  from assms obtain tsts accs where
    l: "map_of cats k = Some tsts" "map_of tsts b = Some accs" "map_of accs a \<noteq> None"
    unfolding is_filed_def by blast
  show ?thesis
  proof (cases "k = category_key")
    case False
    with l show ?thesis
      by (auto simp: is_filed_def file_test_def Let_def update_conv')
  next
    case k: True
    show ?thesis
    proof (cases "b = base_test")
      case False
      with k l show ?thesis
        by (auto simp: is_filed_def file_test_def Let_def update_conv')
    next
      case True
      with k l show ?thesis
        by (auto simp: is_filed_def file_test_def Let_def update_conv')
    qed
  qed
qed


lemma patterns_loop_eq:
  "patterns_loop ps category_key test_name acct data cats =
     (if \<exists>pattern \<in> set ps. re_search pattern test_name
      then file_test category_key (base_test_of acct test_name) acct data cats
      else cats)"
  by (induction ps) simp_all

lemma categories_loop_eq:
  "categories_loop cs test_name acct data cats =
     fold (\<lambda>category_key. file_test category_key (base_test_of acct test_name) acct data)
       [category_key. (category_key, info) \<leftarrow> cs, category_matches info test_name] cats"
proof (induction cs arbitrary: cats)
  case Nil
  show ?case by simp
next
  case (Cons c cs)
  obtain category_key info where c: "c = (category_key, info)" by (cases c)
  show ?case
    unfolding c by (simp add: Cons.IH patterns_loop_eq category_matches_def)
qed

lemma filed_entries_fold:
  "filed_entries (fold (\<lambda>category_key. file_test category_key base_test acct data) keys cats)
     \<subseteq> filed_entries cats \<union> {(category_key, base_test, acct, data) |category_key. category_key \<in> set keys}"
proof (induction keys arbitrary: cats)
  case Nil
  show ?case by simp
next
  case (Cons k keys)
  have "filed_entries (fold (\<lambda>category_key. file_test category_key base_test acct data) keys
          (file_test k base_test acct data cats))
        \<subseteq> filed_entries (file_test k base_test acct data cats) \<union>
          {(category_key, base_test, acct, data) |category_key. category_key \<in> set keys}"
    by (rule Cons.IH)
  with filed_entries_file_test [of k base_test acct data cats] show ?case
    by auto
qed

lemma is_filed_fold_mono:
  "is_filed cats k b a \<Longrightarrow>
   is_filed (fold (\<lambda>category_key. file_test category_key base_test acct data) keys cats) k b a"
  by (induction keys arbitrary: cats) (simp_all add: is_filed_file_test_mono)

lemma is_filed_fold:
  "k \<in> set keys \<Longrightarrow>
   is_filed (fold (\<lambda>category_key. file_test category_key base_test acct data) keys cats)
     k base_test acct"
proof (induction keys arbitrary: cats)
  case Nil
  then show ?case by simp
next
  case (Cons k' keys)
  show ?case
  proof (cases "k = k'")
    case True
    show ?thesis
      unfolding True fold_simps
      by (rule is_filed_fold_mono [OF is_filed_file_test_same])
  next
    case False
    with Cons.prems have "k \<in> set keys" by simp
    then show ?thesis
      unfolding fold_simps by (rule Cons.IH)
  qed
qed

lemma matching_keys:
  "k \<in> set [category_key. (category_key, info) \<leftarrow> cs, category_matches info test_name] \<longleftrightarrow>
     (\<exists>info. (k, info) \<in> set cs \<and> category_matches info test_name)"
  by (induction cs) auto

lemma categories_loop_filed_entries:
  "filed_entries (categories_loop cs test_name acct data cats)
     \<subseteq> filed_entries cats \<union>
       {(category_key, base_test_of acct test_name, acct, data) |category_key.
          \<exists>info. (category_key, info) \<in> set cs \<and> category_matches info test_name}"
  using filed_entries_fold [of "base_test_of acct test_name" acct data
      "[category_key. (category_key, info) \<leftarrow> cs, category_matches info test_name]" cats]
  unfolding categories_loop_eq matching_keys .

lemma categories_loop_is_filed:
  "(k, info) \<in> set cs \<Longrightarrow> category_matches info test_name \<Longrightarrow>
   is_filed (categories_loop cs test_name acct data cats) k (base_test_of acct test_name) acct"
  unfolding categories_loop_eq
  by (rule is_filed_fold) (auto simp: matching_keys)

lemma categories_loop_mono:
  "is_filed cats k b a \<Longrightarrow> is_filed (categories_loop cs test_name acct data cats) k b a"
  unfolding categories_loop_eq by (rule is_filed_fold_mono)

text \<open>Where a filed entry comes from: a test of the comparisons, and a category it matches.\<close>

lemma categorize_loop_sound:
  "(category_key, base_test, acct, data) \<in> filed_entries (categorize_loop comps cats) \<Longrightarrow>
   (category_key, base_test, acct, data) \<in> filed_entries cats \<or>
   (\<exists>test_name info. (test_name, data) \<in> set comps \<and> account_type data = Some acct \<and>
       acct \<noteq> [] \<and> base_test = base_test_of acct test_name \<and>
       (category_key, info) \<in> set CATEGORIES \<and> category_matches info test_name)"
proof (induction comps arbitrary: cats)
  case Nil
  then show ?case by simp
next
  case (Cons x comps)
  obtain t d where x: "x = (t, d)" by (cases x)
  show ?case
  proof (cases "\<exists>a. account_type d = Some a \<and> a \<noteq> []")
    case False
    then have "categorize_loop (x # comps) cats = categorize_loop comps cats"
      unfolding x by (auto split: option.splits)
    with Cons.prems Cons.IH [of cats] show ?thesis
      by auto
  next
    case True
    then obtain a where a: "account_type d = Some a" "a \<noteq> []" by blast
    then have step: "categorize_loop (x # comps) cats =
        categorize_loop comps (categories_loop CATEGORIES t a d cats)"
      unfolding x by simp
    from Cons.prems Cons.IH [of "categories_loop CATEGORIES t a d cats"]
    consider
      (old) "(category_key, base_test, acct, data) \<in> filed_entries (categories_loop CATEGORIES t a d cats)"
    | (later) "\<exists>test_name info. (test_name, data) \<in> set comps \<and> account_type data = Some acct \<and>
         acct \<noteq> [] \<and> base_test = base_test_of acct test_name \<and>
         (category_key, info) \<in> set CATEGORIES \<and> category_matches info test_name"
      unfolding step by blast
    then show ?thesis
    proof cases
      case later
      then show ?thesis by auto
    next
      case old
      with categories_loop_filed_entries [of CATEGORIES t a d cats]
      have "(category_key, base_test, acct, data) \<in> filed_entries cats \<or>
        (acct = a \<and> data = d \<and> base_test = base_test_of a t \<and>
         (\<exists>info. (category_key, info) \<in> set CATEGORIES \<and> category_matches info t))"
        by auto
      then show ?thesis
        using a unfolding x by auto
    qed
  qed
qed

lemma categorize_loop_mono:
  "is_filed cats k b a \<Longrightarrow> is_filed (categorize_loop comps cats) k b a"
proof (induction comps arbitrary: cats)
  case Nil
  then show ?case by simp
next
  case (Cons x comps)
  obtain t d where x: "x = (t, d)" by (cases x)
  from Cons.prems show ?case
    unfolding x by (auto split: option.splits intro!: Cons.IH categories_loop_mono)
qed

lemma categorize_loop_complete:
  "(test_name, data) \<in> set comps \<Longrightarrow> account_type data = Some acct \<Longrightarrow> acct \<noteq> [] \<Longrightarrow>
   (category_key, info) \<in> set CATEGORIES \<Longrightarrow> category_matches info test_name \<Longrightarrow>
   is_filed (categorize_loop comps cats) category_key (base_test_of acct test_name) acct"
proof (induction comps arbitrary: cats)
  case Nil
  then show ?case by simp
next
  case (Cons x comps)
  obtain t d where x: "x = (t, d)" by (cases x)
  show ?case
  proof (cases "x = (test_name, data)")
    case True
    then have "categorize_loop (x # comps) cats =
        categorize_loop comps (categories_loop CATEGORIES test_name acct data cats)"
      using Cons.prems(2,3) by simp
    moreover have "is_filed (categories_loop CATEGORIES test_name acct data cats)
        category_key (base_test_of acct test_name) acct"
      by (rule categories_loop_is_filed [OF Cons.prems(4,5)])
    ultimately show ?thesis
      by (simp add: categorize_loop_mono)
  next
    case False
    with Cons.prems(1) have mem: "(test_name, data) \<in> set comps" by simp
    have ih: "is_filed (categorize_loop comps c) category_key (base_test_of acct test_name) acct" for c
      by (rule Cons.IH [OF mem Cons.prems(2-5)])
    show ?thesis
      unfolding x by (auto split: option.splits intro: ih)
  qed
qed

section \<open>Category resolution\<close>

lemma sponsored_single_transfer:
  "re_search (Bol # lit ''testERC20Transfer_'' @ [WordPlus, Eol]) sponsored_test"
  by code_simp

lemma sponsored_app_sponsor: "re_search (lit ''_AppSponsor'') sponsored_test"
  by (simp add: sponsored_test_def re_search_def lit_def)

lemma sponsored_base: "base_test_of ''IthacaAccount'' sponsored_test = ''testERC20Transfer''"
  by (simp add: sponsored_test_def base_test_of_def newline_def)

text \<open>
  Claim C3 as stated fails. The snapshots hold the one test
  \<^verbatim>\<open>testERC20Transfer_IthacaAccount_AppSponsor\<close>. Its name matches the first pattern of
  \<^verbatim>\<open>single_transfer\<close> (the group \<^verbatim>\<open>\w+\<close> takes \<^verbatim>\<open>IthacaAccount_AppSponsor\<close>) and the pattern
  of \<^verbatim>\<open>app_sponsor\<close>, and \<^verbatim>\<open>categories\<close> ends with the test filed under both: \<^verbatim>\<open>break\<close>
  leaves the loop over the patterns, not the loop over the categories.
\<close>

theorem first_category_only_counterexample:
  "analyze_comparisons Some [sponsored_test \<mapsto> 100::int] [sponsored_test \<mapsto> 120] [sponsored_test]
     = Some [(sponsored_test, sponsored_data)] \<and>
   categorize [(sponsored_test, sponsored_data)] =
     [(''single_transfer'', [(''testERC20Transfer'', [(''IthacaAccount'', sponsored_data)])]),
      (''app_sponsor'', [(''testERC20Transfer'', [(''IthacaAccount'', sponsored_data)])])]"
proof -
  have t: "get_account_type sponsored_test = Some ''IthacaAccount''"
    by (simp add: get_account_type_def ACCOUNT_TYPES_def sponsored_test_def)
  have a: "analyze_comparisons Some [sponsored_test \<mapsto> 100::int] [sponsored_test \<mapsto> 120]
      [sponsored_test] = Some [(sponsored_test, sponsored_data)]"
    by (simp add: analyze_comparisons_def get_gas_def calculate_change_def t sponsored_data_def)
  have m: "[category_key. (category_key, info) \<leftarrow> CATEGORIES, category_matches info sponsored_test]
      = [''single_transfer'', ''app_sponsor'']"
    by code_simp
  have c: "categorize [(sponsored_test, sponsored_data)] =
     [(''single_transfer'', [(''testERC20Transfer'', [(''IthacaAccount'', sponsored_data)])]),
      (''app_sponsor'', [(''testERC20Transfer'', [(''IthacaAccount'', sponsored_data)])])]"
  proof -
    have "account_type sponsored_data = Some ''IthacaAccount''"
      by (simp add: sponsored_data_def)
    then have "categorize [(sponsored_test, sponsored_data)] =
        categories_loop CATEGORIES sponsored_test ''IthacaAccount'' sponsored_data []"
      by (simp add: categorize_def)
    then show ?thesis
      unfolding categories_loop_eq m sponsored_base by (simp add: file_test_def)
  qed
  from a c show ?thesis ..
qed

text \<open>
  Claim C3 as amended. For a test of the comparisons with a known account type, the scan
  visits every category in the declared order and files the test under each category
  that has a matching pattern, once per category; so the test is found under every
  category it matches. Every entry filed under a category comes from a test of the
  comparisons that matches a pattern of that category.
\<close>

theorem filed_under_every_matching_category:
  assumes "(test_name, data) \<in> set comps"
    and "account_type data = Some acct" and "acct \<noteq> []"
  shows "categories_loop CATEGORIES test_name acct data cats =
           fold (\<lambda>category_key. file_test category_key (base_test_of acct test_name) acct data)
             [category_key. (category_key, info) \<leftarrow> CATEGORIES, category_matches info test_name]
             cats \<and>
         (\<forall>(category_key, info) \<in> set CATEGORIES.
            category_matches info test_name \<longrightarrow>
            is_filed (categorize comps) category_key (base_test_of acct test_name) acct) \<and>
         (\<forall>(category_key, base_test, a, d) \<in> filed_entries (categorize comps).
            \<exists>t info. (t, d) \<in> set comps \<and> account_type d = Some a \<and>
              base_test = base_test_of a t \<and>
              (category_key, info) \<in> set CATEGORIES \<and> category_matches info t)"
proof -
  have complete: "is_filed (categorize comps) category_key (base_test_of acct test_name) acct"
    if "(category_key, info) \<in> set CATEGORIES" "category_matches info test_name"
    for category_key info
    unfolding categorize_def by (rule categorize_loop_complete [OF assms that])
  have sound: "\<exists>t info. (t, d) \<in> set comps \<and> account_type d = Some a \<and>
      base_test = base_test_of a t \<and> (category_key, info) \<in> set CATEGORIES \<and>
      category_matches info t"
    if "(category_key, base_test, a, d) \<in> filed_entries (categorize comps)"
    for category_key base_test a d
    using categorize_loop_sound [OF that [unfolded categorize_def]]
    by (auto simp: filed_entries_def)
  from complete sound show ?thesis
    unfolding categories_loop_eq by blast
qed

theorem filed_under_every_matching_category_witness:
  "(sponsored_test, sponsored_data) \<in> set [(sponsored_test, sponsored_data)] \<and>
   account_type sponsored_data = Some ''IthacaAccount'' \<and> ''IthacaAccount'' \<noteq> [] \<and>
   is_filed (categorize [(sponsored_test, sponsored_data)])
     ''single_transfer'' ''testERC20Transfer'' ''IthacaAccount'' \<and>
   is_filed (categorize [(sponsored_test, sponsored_data)])
     ''app_sponsor'' ''testERC20Transfer'' ''IthacaAccount''"
proof -
  let ?single = "\<lparr>patterns = [Bol # lit ''testERC20Transfer_'' @ [WordPlus, Eol],
                     Bol # lit ''testNativeTransfer_'' @ [WordPlus, Eol]],
         label = ''Single Transfer Operations''\<rparr>"
  let ?sponsor = "\<lparr>patterns = [lit ''_AppSponsor''], label = ''App Sponsored Transactions''\<rparr>"
  have h1: "(sponsored_test, sponsored_data) \<in> set [(sponsored_test, sponsored_data)]"
    by simp
  have h2: "account_type sponsored_data = Some ''IthacaAccount''"
    by (simp add: sponsored_data_def)
  have h3: "''IthacaAccount'' \<noteq> []"
    by simp
  have c1: "(''single_transfer'', ?single) \<in> set CATEGORIES"
    and c2: "(''app_sponsor'', ?sponsor) \<in> set CATEGORIES"
    by (simp_all add: CATEGORIES_def)
  have m1: "category_matches ?single sponsored_test"
    using sponsored_single_transfer by (simp add: category_matches_def)
  have m2: "category_matches ?sponsor sponsored_test"
    using sponsored_app_sponsor by (simp add: category_matches_def)
  note inst = filed_under_every_matching_category [OF h1 h2 h3, unfolded sponsored_base]
  from inst c1 m1 have f1: "is_filed (categorize [(sponsored_test, sponsored_data)])
     ''single_transfer'' ''testERC20Transfer'' ''IthacaAccount''"
    by blast
  from inst c2 m2 have f2: "is_filed (categorize [(sponsored_test, sponsored_data)])
     ''app_sponsor'' ''testERC20Transfer'' ''IthacaAccount''"
    by blast
  from h1 h2 h3 f1 f2 show ?thesis
    by blast
qed

section \<open>Savings against the competitors\<close>

lemma entries_of_tests_mem:
  "(base_test, e) \<in> set (entries_of_tests tsts) \<longleftrightarrow>
     (\<exists>accs ithaca_data. (base_test, accs) \<in> set tsts \<and>
        map_of accs ''IthacaAccount'' = Some ithaca_data \<and>
        e = \<lparr>ithaca = ithaca_data, comparisons = competitor_savings ithaca_data accs\<rparr>)"
  unfolding entries_of_tests_def
  by (induction tsts) (auto split: option.splits)

lemma competitor_savings_mem:
  "(acct, s) \<in> set (competitor_savings ithaca_data accs) \<longleftrightarrow>
     acct \<noteq> ''IthacaAccount'' \<and> (\<exists>d. (acct, d) \<in> set accs \<and> s = savings_of ithaca_data d)"
  unfolding competitor_savings_def by auto

lemma analyze_ithaca_comparisons_mem:
  "(category_key, entries) \<in> set (analyze_ithaca_comparisons comps) \<longleftrightarrow>
     (\<exists>tsts. (category_key, tsts) \<in> set (categorize comps) \<and> entries = entries_of_tests tsts)"
  unfolding analyze_ithaca_comparisons_def by auto






section \<open>The unreachable account type\<close>

lemma analyze_loop_account_types:
  "analyze_loop py_int main_data pr_data ts acc = Some comps \<Longrightarrow>
   (\<forall>(t, d) \<in> set acc. account_type d = get_account_type t) \<Longrightarrow>
   (\<forall>(t, d) \<in> set comps. account_type d = get_account_type t)"
proof (induction ts arbitrary: acc)
  case Nil
  then show ?case by simp
next
  case (Cons u ts)
  obtain m' p' where g: "get_gas py_int main_data u = Some m'" "get_gas py_int pr_data u = Some p'"
    using analyze_loop_Some_gas [OF Cons.prems(1)] by blast
  let ?acc = "if m' = 0 \<and> p' = 0 then acc else AList.update u (compare_test u m' p') acc"
  have run: "analyze_loop py_int main_data pr_data ts ?acc = Some comps"
    using Cons.prems(1) unfolding analyze_loop_step [OF g] .
  have "\<forall>(t, d) \<in> set ?acc. account_type d = get_account_type t"
    using Cons.prems(2) by (auto dest!: set_update_cases simp: compare_test_def)
  then show ?case
    by (rule Cons.IH [OF run])
qed

text \<open>
  Claim C9. \<^verbatim>\<open>get_account_type\<close> never returns \<^verbatim>\<open>IthacaAccountWithSpendLimits\<close>: a name that
  contains it contains \<^verbatim>\<open>IthacaAccount\<close>, which is tried first. So in a run of
  \<^verbatim>\<open>analyze\<close> no comparison has that account type, no entry of \<^verbatim>\<open>categories\<close> is filed
  under it, and no savings record is keyed by it.
\<close>

theorem with_spend_limits_unreachable:
  "get_account_type test_name \<noteq> Some ''IthacaAccountWithSpendLimits'' \<and>
   (analyze py_int main_data pr_data all_tests = Some (comps, ithaca_comps) \<longrightarrow>
      (\<forall>(t, d) \<in> set comps. account_type d \<noteq> Some ''IthacaAccountWithSpendLimits'') \<and>
      (\<forall>(category_key, base_test, acct, d) \<in> filed_entries (categorize comps).
         acct \<noteq> ''IthacaAccountWithSpendLimits'') \<and>
      (\<forall>(category_key, entries) \<in> set ithaca_comps. \<forall>(base_test, e) \<in> set entries.
         ''IthacaAccountWithSpendLimits'' \<notin> fst ` set (comparisons e)))"
proof -
  have first: "get_account_type test_name \<noteq> Some ''IthacaAccountWithSpendLimits''"
    by (rule never_with_spend_limits)
  have rest: "(\<forall>(t, d) \<in> set comps. account_type d \<noteq> Some ''IthacaAccountWithSpendLimits'') \<and>
      (\<forall>(category_key, base_test, acct, d) \<in> filed_entries (categorize comps).
         acct \<noteq> ''IthacaAccountWithSpendLimits'') \<and>
      (\<forall>(category_key, entries) \<in> set ithaca_comps. \<forall>(base_test, e) \<in> set entries.
         ''IthacaAccountWithSpendLimits'' \<notin> fst ` set (comparisons e))"
    if run: "analyze py_int main_data pr_data all_tests = Some (comps, ithaca_comps)"
  proof -
    from run have loop: "analyze_loop py_int main_data pr_data all_tests [] = Some comps"
      and ith: "ithaca_comps = analyze_ithaca_comparisons comps"
      unfolding analyze_def analyze_comparisons_def by (auto split: option.splits)
    have types: "\<forall>(t, d) \<in> set comps. account_type d = get_account_type t"
      by (rule analyze_loop_account_types [OF loop]) simp
    have c: "account_type d \<noteq> Some ''IthacaAccountWithSpendLimits''" if "(t, d) \<in> set comps" for t d
      using types that never_with_spend_limits [of t] by auto
    have filed: "acct \<noteq> ''IthacaAccountWithSpendLimits''"
      if "(category_key, base_test, acct, d) \<in> filed_entries (categorize comps)"
      for category_key base_test acct d
    proof -
      from categorize_loop_sound [OF that [unfolded categorize_def]]
      obtain t where "(t, d) \<in> set comps" "account_type d = Some acct"
        by (auto simp: filed_entries_def)
      with c show ?thesis by auto
    qed
    have keyed: "acct \<noteq> ''IthacaAccountWithSpendLimits''"
      if en: "(category_key, entries) \<in> set ithaca_comps" and e: "(base_test, e) \<in> set entries"
        and s: "(acct, s) \<in> set (comparisons e)"
      for category_key entries base_test e acct s
    proof -
      from en obtain tsts where tsts: "(category_key, tsts) \<in> set (categorize comps)"
        and entries: "entries = entries_of_tests tsts"
        unfolding ith analyze_ithaca_comparisons_mem by blast
      from e obtain accs ithaca_data where accs: "(base_test, accs) \<in> set tsts"
        and e_eq: "e = \<lparr>ithaca = ithaca_data, comparisons = competitor_savings ithaca_data accs\<rparr>"
        unfolding entries entries_of_tests_mem by blast
      from s obtain d where "(acct, d) \<in> set accs"
        unfolding e_eq by (auto simp: competitor_savings_mem)
      with tsts accs have "(category_key, base_test, acct, d) \<in> filed_entries (categorize comps)"
        unfolding filed_entries_def by auto
      then show ?thesis
        by (rule filed)
    qed
    have k: "\<forall>(category_key, entries) \<in> set ithaca_comps. \<forall>(base_test, e) \<in> set entries.
         ''IthacaAccountWithSpendLimits'' \<notin> fst ` set (comparisons e)"
      using keyed by fastforce
    from c filed k show ?thesis
      by blast
  qed
  from first rest show ?thesis
    by blast
qed


theorem with_spend_limits_unreachable_witness:
  "analyze Some limits_main limits_pr limits_tests =
     Some (limits_comps, analyze_ithaca_comparisons limits_comps) \<and>
   get_account_type ''testERC20Transfer_IthacaAccountWithSpendLimits''
     \<noteq> Some ''IthacaAccountWithSpendLimits'' \<and>
   (\<exists>d. (''testERC20Transfer_IthacaAccountWithSpendLimits'', d) \<in> set limits_comps \<and>
        account_type d \<noteq> Some ''IthacaAccountWithSpendLimits'') \<and>
   (\<exists>entries e.
      (''single_transfer'', entries) \<in> set (analyze_ithaca_comparisons limits_comps) \<and>
      (''testERC20Transfer'', e) \<in> set entries \<and>
      ''IthacaAccountWithSpendLimits'' \<notin> fst ` set (comparisons e))"
proof -
  let ?d = "\<lparr>main = 100, pr = 90, absolute = - 10, percentage = - 10,
             account_type = Some ''IthacaAccount''\<rparr>"
  let ?e = "\<lparr>ithaca = ?d,
             comparisons =
               [(''Safe4337'',
                 \<lparr>pr_savings_abs = 90, pr_savings_pct = 50, main_savings_abs = 100,
                  main_savings_pct = 50, improvement = 0\<rparr>)]\<rparr>"
  have run: "analyze Some limits_main limits_pr limits_tests =
      Some (limits_comps, analyze_ithaca_comparisons limits_comps)"
    by code_simp
  have ith: "analyze_ithaca_comparisons limits_comps =
      [(''single_transfer'', [(''testERC20Transfer'', ?e)])]"
    by code_simp
  have m1: "(''testERC20Transfer_IthacaAccountWithSpendLimits'', ?d) \<in> set limits_comps"
    by (simp add: limits_comps_def)
  have m2: "(''single_transfer'', [(''testERC20Transfer'', ?e)])
      \<in> set (analyze_ithaca_comparisons limits_comps)"
    unfolding ith by simp
  have m3: "(''testERC20Transfer'', ?e) \<in> set [(''testERC20Transfer'', ?e)]"
    by simp
  note inst = with_spend_limits_unreachable
    [of "''testERC20Transfer_IthacaAccountWithSpendLimits''" Some limits_main limits_pr
      limits_tests limits_comps "analyze_ithaca_comparisons limits_comps"]
  from inst have a: "get_account_type ''testERC20Transfer_IthacaAccountWithSpendLimits''
     \<noteq> Some ''IthacaAccountWithSpendLimits''"
    by blast
  from inst run m1 have b: "account_type ?d \<noteq> Some ''IthacaAccountWithSpendLimits''"
    by blast
  from inst run m2 m3
  have c: "''IthacaAccountWithSpendLimits'' \<notin> fst ` set (comparisons ?e)"
    by blast
  from run a m1 b m2 m3 c show ?thesis
    by blast
qed

section \<open>Summary counts\<close>

lemma count_keys:
  assumes "distinct (map fst comps)"
  shows "length [t. (t, d) \<leftarrow> comps, P t d] = card {t. \<exists>d. map_of comps t = Some d \<and> P t d}"
proof -
  have eq: "[t. (t, d) \<leftarrow> comps, P t d] = map fst (filter (\<lambda>(t, d). P t d) comps)"
    by (induction comps) auto
  have dist: "distinct (map fst (filter (\<lambda>(t, d). P t d) comps))"
    using assms by (rule distinct_map_filter)
  have "set (map fst (filter (\<lambda>(t, d). P t d) comps)) = {t. \<exists>d. (t, d) \<in> set comps \<and> P t d}"
    by force
  also have "\<dots> = {t. \<exists>d. map_of comps t = Some d \<and> P t d}"
    using assms by (simp add: map_of_eq_Some_iff)
  finally have "card {t. \<exists>d. map_of comps t = Some d \<and> P t d} =
      card (set (map fst (filter (\<lambda>(t, d). P t d) comps)))"
    by simp
  also have "\<dots> = length (map fst (filter (\<lambda>(t, d). P t d) comps))"
    using dist by (rule distinct_card)
  finally show ?thesis
    unfolding eq by simp
qed

lemma count_all:
  assumes "distinct (map fst comps)"
  shows "length comps = card (dom (map_of comps))"
proof -
  have "card (dom (map_of comps)) = card (set (map fst comps))"
    by (simp add: dom_map_of_conv_image_fst)
  also have "\<dots> = length (map fst comps)"
    using assms by (rule distinct_card)
  finally show ?thesis by simp
qed

lemma summary_recomputed:
  assumes "distinct (map fst comps)"
  shows "json_summary (generate_json_data comps ithaca_comps) = recomputed_summary (map_of comps)"
proof -
  have "{t \<in> dom (map_of comps). sublist ''IthacaAccount'' t} =
      {t. \<exists>d. map_of comps t = Some d \<and> str_in ''IthacaAccount'' t}"
    by (auto simp: str_in_iff_sublist)
  then show ?thesis
    unfolding generate_json_data_def recomputed_summary_def
    using count_all [OF assms] count_keys [OF assms, of "\<lambda>t d. str_in ''IthacaAccount'' t"]
      count_keys [OF assms, of "\<lambda>t d. percentage d < - 1"]
      count_keys [OF assms, of "\<lambda>t d. percentage d > 5"]
    by simp
qed

lemma analyze_distinct:
  "analyze py_int main_data pr_data all_tests = Some (comps, ithaca_comps) \<Longrightarrow>
   distinct (map fst comps)"
  unfolding analyze_def analyze_comparisons_def
  by (auto split: option.splits dest: analyze_loop_distinct)

text \<open>
  Claim C6. For every run of the comparator, the summary stored in the JSON artifact is
  the summary recomputed from the comparisons object of that artifact, read back as a
  map from test identifiers to records.
\<close>

theorem summary_round_trip:
  assumes "analyze py_int main_data pr_data all_tests = Some (comps, ithaca_comps)"
  shows "json_summary (generate_json_data comps ithaca_comps) =
         recomputed_summary (map_of (json_comparisons (generate_json_data comps ithaca_comps)))"
proof -
  have "json_comparisons (generate_json_data comps ithaca_comps) = comps"
    by (simp add: generate_json_data_def)
  then show ?thesis
    using summary_recomputed [OF analyze_distinct [OF assms]] by simp
qed

theorem summary_round_trip_witness:
  "analyze Some limits_main limits_pr limits_tests =
     Some (limits_comps, analyze_ithaca_comparisons limits_comps) \<and>
   recomputed_summary
     (map_of (json_comparisons
        (generate_json_data limits_comps (analyze_ithaca_comparisons limits_comps)))) =
     \<lparr>total_tests = 2, ithaca_tests = 1, improvements = 2, regressions = 0\<rparr>"
proof -
  have run: "analyze Some limits_main limits_pr limits_tests =
      Some (limits_comps, analyze_ithaca_comparisons limits_comps)"
    by code_simp
  have "json_summary (generate_json_data limits_comps (analyze_ithaca_comparisons limits_comps)) =
      \<lparr>total_tests = 2, ithaca_tests = 1, improvements = 2, regressions = 0\<rparr>"
    by (simp add: generate_json_data_def limits_comps_def)
  with summary_round_trip [OF run] run show ?thesis
    by simp
qed

section \<open>The two summaries\<close>

lemma count_filtered:
  "length [t. (t, d) \<leftarrow> [(t, d). (t, d) \<leftarrow> comps, Q t], P d] =
   length [t. (t, d) \<leftarrow> comps, Q t \<and> P d]"
  by (induction comps) auto

lemma length_filtered:
  "length [(t, d). (t, d) \<leftarrow> comps, Q t] = length [t. (t, d) \<leftarrow> comps, Q t]"
  by (induction comps) auto

lemma filtered_empty:
  "[(t, d). (t, d) \<leftarrow> comps, Q t] = [] \<longleftrightarrow> (\<forall>t \<in> fst ` set comps. \<not> Q t)"
  by (induction comps) auto

text \<open>
  Claim C10. In the JSON summary, \<open>improvements\<close> counts every entry of the comparisons,
  whatever its account type, whose percentage is below \<open>-1\<close>, and \<open>regressions\<close> every
  entry whose percentage is above \<open>5\<close>. The summary block of the markdown report is left
  out when no identifier contains \<^verbatim>\<open>IthacaAccount\<close>; otherwise it counts only the tests
  whose identifier contains \<^verbatim>\<open>IthacaAccount\<close>: as improvements those with a percentage
  below \<open>0\<close>, as regressions those with a percentage above \<open>5\<close>.
\<close>

theorem summary_definitions:
  assumes "distinct (map fst comps)"
  shows "improvements (json_summary (generate_json_data comps ithaca_comps)) =
           card {t. \<exists>d. map_of comps t = Some d \<and> percentage d < - 1} \<and>
         regressions (json_summary (generate_json_data comps ithaca_comps)) =
           card {t. \<exists>d. map_of comps t = Some d \<and> percentage d > 5} \<and>
         (summary_block_of comps = None \<longleftrightarrow>
            (\<forall>t \<in> dom (map_of comps). \<not> sublist ''IthacaAccount'' t)) \<and>
         (\<forall>b. summary_block_of comps = Some b \<longrightarrow>
            block_tests b =
              card {t. \<exists>d. map_of comps t = Some d \<and> sublist ''IthacaAccount'' t} \<and>
            block_improvements b =
              card {t. \<exists>d. map_of comps t = Some d \<and> sublist ''IthacaAccount'' t \<and>
                      percentage d < 0} \<and>
            block_regressions b =
              card {t. \<exists>d. map_of comps t = Some d \<and> sublist ''IthacaAccount'' t \<and>
                      percentage d > 5})"
proof -
  have j1: "improvements (json_summary (generate_json_data comps ithaca_comps)) =
           card {t. \<exists>d. map_of comps t = Some d \<and> percentage d < - 1}"
    using count_keys [OF assms, of "\<lambda>t d. percentage d < - 1"]
    by (simp add: generate_json_data_def)
  have j2: "regressions (json_summary (generate_json_data comps ithaca_comps)) =
           card {t. \<exists>d. map_of comps t = Some d \<and> percentage d > 5}"
    using count_keys [OF assms, of "\<lambda>t d. percentage d > 5"]
    by (simp add: generate_json_data_def)
  have none: "summary_block_of comps = None \<longleftrightarrow>
            (\<forall>t \<in> dom (map_of comps). \<not> sublist ''IthacaAccount'' t)"
  proof -
    define ithaca_tests where
      "ithaca_tests = [(t, d). (t, d) \<leftarrow> comps, str_in ''IthacaAccount'' t]"
    have "summary_block_of comps = None \<longleftrightarrow> ithaca_tests = []"
      unfolding summary_block_of_def Let_def ithaca_tests_def [symmetric] by simp
    also have "\<dots> \<longleftrightarrow> (\<forall>t \<in> fst ` set comps. \<not> str_in ''IthacaAccount'' t)"
      unfolding ithaca_tests_def by (rule filtered_empty)
    finally show ?thesis
      by (simp add: dom_map_of_conv_image_fst str_in_iff_sublist)
  qed
  have block: "block_tests b =
              card {t. \<exists>d. map_of comps t = Some d \<and> sublist ''IthacaAccount'' t} \<and>
            block_improvements b =
              card {t. \<exists>d. map_of comps t = Some d \<and> sublist ''IthacaAccount'' t \<and>
                      percentage d < 0} \<and>
            block_regressions b =
              card {t. \<exists>d. map_of comps t = Some d \<and> sublist ''IthacaAccount'' t \<and>
                      percentage d > 5}"
    if "summary_block_of comps = Some b" for b
  proof -
    let ?ithaca_tests = "[(t, d). (t, d) \<leftarrow> comps, str_in ''IthacaAccount'' t]"
    from that have b: "b =
        \<lparr>block_tests = length ?ithaca_tests,
         block_avg_change =
           sum_list [percentage d. (t, d) \<leftarrow> ?ithaca_tests] / of_nat (length ?ithaca_tests),
         block_improvements = length [t. (t, d) \<leftarrow> ?ithaca_tests, percentage d < 0],
         block_regressions = length [t. (t, d) \<leftarrow> ?ithaca_tests, percentage d > 5]\<rparr>"
      unfolding summary_block_of_def Let_def by (auto split: if_splits)
    show ?thesis
      unfolding b
      using count_keys [OF assms, of "\<lambda>t d. str_in ''IthacaAccount'' t"]
        count_keys [OF assms, of "\<lambda>t d. str_in ''IthacaAccount'' t \<and> percentage d < 0"]
        count_keys [OF assms, of "\<lambda>t d. str_in ''IthacaAccount'' t \<and> percentage d > 5"]
      by (simp add: count_filtered length_filtered str_in_iff_sublist)
  qed
  from j1 j2 none block show ?thesis
    by blast
qed

theorem summary_definitions_witness:
  "distinct (map fst differ_example) \<and>
   card {t. \<exists>d. map_of differ_example t = Some d \<and> percentage d < - 1} = 2 \<and>
   card {t. \<exists>d. map_of differ_example t = Some d \<and> percentage d > 5} = 1 \<and>
   card {t. \<exists>d. map_of differ_example t = Some d \<and> sublist ''IthacaAccount'' t \<and>
           percentage d < 0} = 1 \<and>
   card {t. \<exists>d. map_of differ_example t = Some d \<and> sublist ''IthacaAccount'' t \<and>
           percentage d > 5} = 0 \<and>
   summary_block_of differ_example =
     Some \<lparr>block_tests = 1, block_avg_change = - 1 / 2, block_improvements = 1,
           block_regressions = 0\<rparr>"
proof -
  have d: "distinct (map fst differ_example)"
    by (simp add: differ_example_def)
  have j: "json_summary (generate_json_data differ_example []) =
      \<lparr>total_tests = 4, ithaca_tests = 1, improvements = 2, regressions = 1\<rparr>"
    by (simp add: generate_json_data_def differ_example_def)
  have b: "summary_block_of differ_example =
     Some \<lparr>block_tests = 1, block_avg_change = - 1 / 2, block_improvements = 1,
           block_regressions = 0\<rparr>"
    by (simp add: summary_block_of_def differ_example_def)
  from summary_definitions [OF d, of "[]"] j b d show ?thesis
    by simp
qed

section \<open>Charts\<close>

lemma matching_gas_Nil: "matching_gas f [] a = {}"
  by (simp add: matching_gas_def)

lemma matching_gas_Cons:
  "matching_gas f ((t, d) # comps) a =
     (if f t \<and> account_type d = Some a then {pr d} else {}) \<union> matching_gas f comps a"
  by (auto simp: matching_gas_def)

lemma finite_matching_gas: "finite (matching_gas f comps a)"
  by (induction comps) (auto simp: matching_gas_Nil matching_gas_Cons)

text \<open>
  The value the loop holds for an account is the least among the value it started with
  and the matching gas values it has seen.
\<close>

lemma chart_data_loop_least:
  "a \<noteq> [] \<Longrightarrow>
   (case map_of (chart_data_loop f comps cd) a of
      None \<Rightarrow> matching_gas f comps a = {} \<and> map_of cd a = None
    | Some v \<Rightarrow> v \<in> matching_gas f comps a \<union> set_option (map_of cd a) \<and>
               (\<forall>x \<in> matching_gas f comps a \<union> set_option (map_of cd a). v \<le> x))"
proof (induction comps arbitrary: cd)
  case Nil
  then show ?case
    by (auto simp: matching_gas_Nil split: option.splits)
next
  case (Cons x comps)
  obtain t d where x: "x = (t, d)" by (cases x)
  show ?case
  proof (cases "\<exists>acc. account_type d = Some acc \<and> f t \<and> acc \<noteq> []")
    case False
    then have step: "chart_data_loop f (x # comps) cd = chart_data_loop f comps cd"
      unfolding x by (auto split: option.splits)
    from False Cons.prems have m: "matching_gas f (x # comps) a = matching_gas f comps a"
      unfolding x matching_gas_Cons by auto
    show ?thesis
      unfolding step m by (rule Cons.IH [OF Cons.prems])
  next
    case True
    then obtain acc where acc: "account_type d = Some acc" "f t" "acc \<noteq> []"
      by blast
    define cd' where "cd' =
      (case map_of cd acc of
         None \<Rightarrow> AList.update acc (pr d) cd
       | Some gas \<Rightarrow> if pr d < gas then AList.update acc (pr d) cd else cd)"
    have step: "chart_data_loop f (x # comps) cd = chart_data_loop f comps cd'"
      unfolding x cd'_def using acc by (simp split: option.splits)
    have ih: "case map_of (chart_data_loop f comps cd') a of
        None \<Rightarrow> matching_gas f comps a = {} \<and> map_of cd' a = None
      | Some v \<Rightarrow> v \<in> matching_gas f comps a \<union> set_option (map_of cd' a) \<and>
                 (\<forall>x \<in> matching_gas f comps a \<union> set_option (map_of cd' a). v \<le> x)"
      by (rule Cons.IH [OF Cons.prems])
    show ?thesis
    proof (cases "a = acc")
      case False
      then have e1: "map_of cd' a = map_of cd a"
        unfolding cd'_def by (simp add: update_conv' split: option.splits)
      from False acc have e2: "matching_gas f (x # comps) a = matching_gas f comps a"
        unfolding x matching_gas_Cons by auto
      show ?thesis
        unfolding step e2 e1 [symmetric] by (rule ih)
    next
      case True
      have m: "matching_gas f (x # comps) a = insert (pr d) (matching_gas f comps a)"
        unfolding x matching_gas_Cons using acc True by simp
      have new: "map_of cd' a =
          (case map_of cd a of None \<Rightarrow> Some (pr d) | Some gas \<Rightarrow> Some (min (pr d) gas))"
        unfolding cd'_def True by (auto simp: update_conv' split: option.splits)
      show ?thesis
      proof (cases "map_of cd a")
        case None
        with new have "map_of cd' a = Some (pr d)" by simp
        with ih None show ?thesis
          unfolding step m by (auto split: option.splits)
      next
        case (Some gas)
        with new have "map_of cd' a = Some (min (pr d) gas)" by simp
        with ih Some show ?thesis
          unfolding step m by (auto split: option.splits if_splits simp: min_def)
      qed
    qed
  qed
qed

lemma chart_data_loop_empty_account:
  "map_of (chart_data_loop f comps cd) [] = map_of cd []"
proof (induction comps arbitrary: cd)
  case Nil
  show ?case by simp
next
  case (Cons x comps)
  obtain t d where x: "x = (t, d)" by (cases x)
  show ?case
    unfolding x by (auto simp: Cons.IH update_conv' split: option.splits)
qed

lemma chart_data_loop_distinct:
  "distinct (map fst cd) \<Longrightarrow> distinct (map fst (chart_data_loop f comps cd))"
proof (induction comps arbitrary: cd)
  case Nil
  then show ?case by simp
next
  case (Cons x comps)
  obtain t d where x: "x = (t, d)" by (cases x)
  from Cons.prems show ?case
    unfolding x by (auto intro!: Cons.IH distinct_update split: option.splits)
qed

lemma chart_data_of_iff:
  "(account, v) \<in> set (chart_data_of f comps) \<longleftrightarrow>
     account \<noteq> [] \<and> matching_gas f comps account \<noteq> {} \<and> v = Min (matching_gas f comps account)"
proof -
  have dist: "distinct (map fst (chart_data_of f comps))"
    unfolding chart_data_of_def by (rule chart_data_loop_distinct) simp
  then have mem: "(account, v) \<in> set (chart_data_of f comps) \<longleftrightarrow>
      map_of (chart_data_of f comps) account = Some v"
    by simp
  show ?thesis
  proof (cases "account = []")
    case True
    have "map_of (chart_data_of f comps) [] = None"
      unfolding chart_data_of_def by (simp add: chart_data_loop_empty_account)
    then have "([], v) \<notin> set (chart_data_of f comps)"
      unfolding map_of_eq_None_iff by force
    with True show ?thesis
      by simp
  next
    case False
    note least = chart_data_loop_least [OF False, of f comps "[]"]
    show ?thesis
    proof (cases "map_of (chart_data_of f comps) account")
      case None
      with least have "matching_gas f comps account = {}"
        unfolding chart_data_of_def by simp
      moreover from None have "(account, v) \<notin> set (chart_data_of f comps)"
        unfolding map_of_eq_None_iff by force
      ultimately show ?thesis
        by simp
    next
      case (Some w)
      with least have w: "w \<in> matching_gas f comps account"
        "\<forall>x \<in> matching_gas f comps account. w \<le> x"
        unfolding chart_data_of_def by simp_all
      then have "Min (matching_gas f comps account) = w"
        using finite_matching_gas by (intro Min_eqI) auto
      with w Some False show ?thesis
        unfolding mem by auto
    qed
  qed
qed


lemma generate_svg_bar_chart_nonempty:
  assumes "data \<noteq> []"
  shows "generate_svg_bar_chart data title =
     Bar_chart title (sort_key snd data) (fold (\<lambda>gas m. max m gas) (map snd (sort_key snd data)) 0)"
proof -
  have "length (sort_key snd data) = length data"
    by simp
  with assms have "sort_key snd data \<noteq> []"
    by (metis length_0_conv)
  then show ?thesis
    unfolding generate_svg_bar_chart_def Let_def by (simp add: zip_map_fst_snd)
qed

lemma charts_loop_absent:
  "op_name \<notin> fst ` set ops \<Longrightarrow> map_of (charts_loop ops comps) (op_name @ ''_chart.svg'') = None"
proof (induction ops)
  case Nil
  show ?case by simp
next
  case (Cons x ops)
  obtain n f where x: "x = (n, f)" by (cases x)
  from Cons show ?case
    unfolding x by (auto simp: Let_def)
qed

lemma charts_loop_lookup:
  "distinct (map fst ops) \<Longrightarrow> (op_name, filter_func) \<in> set ops \<Longrightarrow>
   map_of (charts_loop ops comps) (op_name @ ''_chart.svg'') =
     (if chart_data_of filter_func comps = [] then None
      else Some (generate_svg_bar_chart (chart_data_of filter_func comps)
                  (case map_of chart_titles op_name of None \<Rightarrow> op_name | Some title \<Rightarrow> title)))"
proof (induction ops)
  case Nil
  then show ?case by simp
next
  case (Cons x ops)
  obtain n f where x: "x = (n, f)" by (cases x)
  show ?case
  proof (cases "n = op_name")
    case True
    with Cons.prems have f: "f = filter_func" and absent: "op_name \<notin> fst ` set ops"
      unfolding x by force+
    show ?thesis
      unfolding x True f using charts_loop_absent [OF absent] by (simp add: Let_def)
  next
    case False
    with Cons.prems have "distinct (map fst ops)" "(op_name, filter_func) \<in> set ops"
      unfolding x by auto
    from Cons.IH [OF this] False show ?thesis
      unfolding x by (simp add: Let_def)
  qed
qed

text \<open>
  Claim C8. There are four operation filters. For each of them, no chart file is written
  when no comparison entry counts for the filter; otherwise the file holds a chart whose
  bars ascend by value and are exactly the pairs of an account type that has an entry
  accepted by the filter and the least PR-side gas value among those entries. When no
  test name is accepted by the filter, no chart file is written.
\<close>

theorem charted_minimum:
  assumes "(op_name, filter_func) \<in> set operation_types"
  shows "length operation_types = 4 \<and>
    (chart_data_of filter_func comps = [] \<longrightarrow>
       map_of (chart_files comps) (op_name @ ''_chart.svg'') = None) \<and>
    (chart_data_of filter_func comps \<noteq> [] \<longrightarrow>
       (\<exists>title bars max_value.
          map_of (chart_files comps) (op_name @ ''_chart.svg'') = Some (Bar_chart title bars max_value) \<and>
          sorted (map snd bars) \<and>
          (\<forall>account v. (account, v) \<in> set bars \<longleftrightarrow>
             account \<noteq> [] \<and> matching_gas filter_func comps account \<noteq> {} \<and>
             v = Min (matching_gas filter_func comps account)))) \<and>
    ((\<forall>(t, d) \<in> set comps. \<not> filter_func t) \<longrightarrow>
       map_of (chart_files comps) (op_name @ ''_chart.svg'') = None)"
proof -
  let ?cd = "chart_data_of filter_func comps"
  let ?file = "op_name @ ''_chart.svg''"
  have len: "length operation_types = 4"
    by (simp add: operation_types_def)
  have dist: "distinct (map fst operation_types)"
    by (simp add: operation_types_def)
  note lookup = charts_loop_lookup [OF dist assms, of comps, folded chart_files_def]
  have none: "map_of (chart_files comps) ?file = None" if "?cd = []"
    using lookup that by simp
  have some: "\<exists>title bars max_value.
          map_of (chart_files comps) ?file = Some (Bar_chart title bars max_value) \<and>
          sorted (map snd bars) \<and>
          (\<forall>account v. (account, v) \<in> set bars \<longleftrightarrow>
             account \<noteq> [] \<and> matching_gas filter_func comps account \<noteq> {} \<and>
             v = Min (matching_gas filter_func comps account))"
    if ne: "?cd \<noteq> []"
  proof -
    let ?title = "case map_of chart_titles op_name of None \<Rightarrow> op_name | Some title \<Rightarrow> title"
    let ?bars = "sort_key snd ?cd"
    let ?max = "fold (\<lambda>gas m. max m gas) (map snd ?bars) 0"
    have "map_of (chart_files comps) ?file = Some (Bar_chart ?title ?bars ?max)"
      using lookup ne generate_svg_bar_chart_nonempty [OF ne] by simp
    moreover have "sorted (map snd ?bars)"
      by (rule sorted_sort_key)
    moreover have "\<forall>account v. (account, v) \<in> set ?bars \<longleftrightarrow>
             account \<noteq> [] \<and> matching_gas filter_func comps account \<noteq> {} \<and>
             v = Min (matching_gas filter_func comps account)"
      by (simp add: chart_data_of_iff)
    ultimately show ?thesis
      by blast
  qed
  have unmatched: "map_of (chart_files comps) ?file = None"
    if "\<forall>(t, d) \<in> set comps. \<not> filter_func t"
  proof -
    from that have "matching_gas filter_func comps account = {}" for account
      unfolding matching_gas_def by auto
    then have "(account, v) \<notin> set ?cd" for account v
      by (simp add: chart_data_of_iff)
    then have "?cd = []"
      by (cases ?cd) auto
    then show ?thesis
      by (rule none)
  qed
  from len none some unmatched show ?thesis
    by blast
qed


theorem charted_minimum_witness:
  "(''uniswap'', \<lambda>t. str_in ''UniswapV2Swap'' t) \<in> set operation_types \<and>
   map_of (chart_files chart_example) ''uniswap_chart.svg'' = None \<and>
   (''single_erc20'',
      \<lambda>t. str_in ''testERC20Transfer_'' t \<and> \<not> str_in ''batch'' (lower t) \<and>
          \<not> str_in ''Sponsor'' t \<and> \<not> str_in ''ERC20SelfPay'' t) \<in> set operation_types \<and>
   (\<exists>title bars max_value.
      map_of (chart_files chart_example) ''single_erc20_chart.svg''
        = Some (Bar_chart title bars max_value) \<and>
      (''IthacaAccount'', 70) \<in> set bars \<and> (''Safe4337'', 160) \<in> set bars)"
proof -
  let ?swap = "\<lambda>t. str_in ''UniswapV2Swap'' t"
  let ?single = "\<lambda>t. str_in ''testERC20Transfer_'' t \<and> \<not> str_in ''batch'' (lower t) \<and>
          \<not> str_in ''Sponsor'' t \<and> \<not> str_in ''ERC20SelfPay'' t"
  have h1: "(''uniswap'', ?swap) \<in> set operation_types"
    and h2: "(''single_erc20'', ?single) \<in> set operation_types"
    by (simp_all add: operation_types_def)
  have no_swap: "\<forall>(t, d) \<in> set chart_example. \<not> ?swap t"
    by (simp add: chart_example_def)
  from charted_minimum [OF h1, of chart_example] no_swap
  have u: "map_of (chart_files chart_example) ''uniswap_chart.svg'' = None"
    by simp
  have ne: "chart_data_of ?single chart_example \<noteq> []"
    by code_simp
  have accept: "?single ''testERC20Transfer_IthacaAccount''"
    "?single ''testERC20Transfer_IthacaAccount_Passkey''"
    "?single ''testERC20Transfer_Safe4337''"
    by code_simp+
  have g1: "matching_gas ?single chart_example ''IthacaAccount'' = {80, 70}"
    unfolding chart_example_def matching_gas_Cons matching_gas_Nil using accept by auto
  have g2: "matching_gas ?single chart_example ''Safe4337'' = {160}"
    unfolding chart_example_def matching_gas_Cons matching_gas_Nil using accept by simp
  from charted_minimum [OF h2, of chart_example] ne obtain title bars max_value where
    written: "map_of (chart_files chart_example) (''single_erc20'' @ ''_chart.svg'')
        = Some (Bar_chart title bars max_value)"
    and bars: "\<And>account v. (account, v) \<in> set bars \<longleftrightarrow>
        account \<noteq> [] \<and> matching_gas ?single chart_example account \<noteq> {} \<and>
        v = Min (matching_gas ?single chart_example account)"
    by blast
  have b1: "(''IthacaAccount'', 70) \<in> set bars"
    unfolding bars g1 by simp
  have b2: "(''Safe4337'', 160) \<in> set bars"
    unfolding bars g2 by simp
  from written have written': "map_of (chart_files chart_example) ''single_erc20_chart.svg''
        = Some (Bar_chart title bars max_value)"
    by simp
  from h1 u h2 written' b1 b2 show ?thesis
    by blast
qed

section \<open>The order of the loop over the tests\<close>

lemma analyze_loop_gas_defined:
  "analyze_loop py_int main_data pr_data ts acc = Some comps \<Longrightarrow> t \<in> set ts \<Longrightarrow>
   \<exists>m p. get_gas py_int main_data t = Some m \<and> get_gas py_int pr_data t = Some p"
proof (induction ts arbitrary: acc)
  case Nil
  then show ?case by simp
next
  case (Cons u ts)
  obtain m' p' where g: "get_gas py_int main_data u = Some m'" "get_gas py_int pr_data u = Some p'"
    using analyze_loop_Some_gas [OF Cons.prems(1)] by blast
  show ?case
  proof (cases "t = u")
    case True
    with g show ?thesis by blast
  next
    case False
    with Cons.prems(2) have "t \<in> set ts" by simp
    moreover have "analyze_loop py_int main_data pr_data ts
        (if m' = 0 \<and> p' = 0 then acc else AList.update u (compare_test u m' p') acc) = Some comps"
      using Cons.prems(1) unfolding analyze_loop_step [OF g] .
    ultimately show ?thesis
      using Cons.IH by blast
  qed
qed

lemma analyze_loop_succeeds:
  "(\<forall>t \<in> set ts. \<exists>m p. get_gas py_int main_data t = Some m \<and> get_gas py_int pr_data t = Some p) \<Longrightarrow>
   \<exists>comps. analyze_loop py_int main_data pr_data ts acc = Some comps"
proof (induction ts arbitrary: acc)
  case Nil
  show ?case by simp
next
  case (Cons u ts)
  from Cons.prems obtain m p where
    g: "get_gas py_int main_data u = Some m" "get_gas py_int pr_data u = Some p"
    by auto
  from Cons.prems have "\<forall>t \<in> set ts.
      \<exists>m p. get_gas py_int main_data t = Some m \<and> get_gas py_int pr_data t = Some p"
    by simp
  from Cons.IH [OF this] show ?case
    unfolding analyze_loop_step [OF g] .
qed

lemma analyze_loop_fails_iff:
  "analyze_loop py_int main_data pr_data ts acc = None \<longleftrightarrow>
     \<not> (\<forall>t \<in> set ts. \<exists>m p. get_gas py_int main_data t = Some m \<and>
                              get_gas py_int pr_data t = Some p)"
proof
  assume failed: "analyze_loop py_int main_data pr_data ts acc = None"
  show "\<not> (\<forall>t \<in> set ts. \<exists>m p. get_gas py_int main_data t = Some m \<and>
                              get_gas py_int pr_data t = Some p)"
  proof
    assume "\<forall>t \<in> set ts. \<exists>m p. get_gas py_int main_data t = Some m \<and>
                              get_gas py_int pr_data t = Some p"
    from analyze_loop_succeeds [OF this, of acc] failed show False
      by simp
  qed
next
  assume n: "\<not> (\<forall>t \<in> set ts. \<exists>m p. get_gas py_int main_data t = Some m \<and>
                              get_gas py_int pr_data t = Some p)"
  show "analyze_loop py_int main_data pr_data ts acc = None"
  proof (cases "analyze_loop py_int main_data pr_data ts acc")
    case None
    then show ?thesis .
  next
    case (Some comps)
    from analyze_loop_gas_defined [OF Some] n show ?thesis
      by blast
  qed
qed

lemma get_gas_absent:
  "t \<notin> dom snapshot \<Longrightarrow> get_gas py_int snapshot t = Some 0"
  by (auto simp: get_gas_def split: option.splits)

lemma analyze_loop_same_map:
  assumes s: "set ts1 = dom main_data \<union> dom pr_data" "set ts2 = dom main_data \<union> dom pr_data"
    and r1: "analyze_loop py_int main_data pr_data ts1 [] = Some c1"
    and r2: "analyze_loop py_int main_data pr_data ts2 [] = Some c2"
  shows "map_of c1 = map_of c2"
proof
  fix t
  have "\<exists>m p. get_gas py_int main_data t = Some m \<and> get_gas py_int pr_data t = Some p"
  proof (cases "t \<in> set ts1")
    case True
    then show ?thesis
      by (rule analyze_loop_gas_defined [OF r1])
  next
    case False
    with s(1) show ?thesis
      by (simp add: get_gas_absent)
  qed
  then obtain m p where g: "get_gas py_int main_data t = Some m" "get_gas py_int pr_data t = Some p"
    by blast
  show "map_of c1 t = map_of c2 t"
    unfolding analyze_loop_lookup [OF r1 g] analyze_loop_lookup [OF r2 g] s ..
qed


text \<open>The keys of the comparisons come in the order the loop visits them.\<close>

lemma analyze_loop_order:
  "analyze_loop py_int main_data pr_data ts acc = Some comps \<Longrightarrow>
   distinct ts \<Longrightarrow> set ts \<inter> fst ` set acc = {} \<Longrightarrow>
   map fst comps = map fst acc @ filter (\<lambda>t. t \<in> dom (map_of comps)) ts"
proof (induction ts arbitrary: acc)
  case Nil
  then show ?case by simp
next
  case (Cons u ts)
  obtain m' p' where g: "get_gas py_int main_data u = Some m'" "get_gas py_int pr_data u = Some p'"
    using analyze_loop_Some_gas [OF Cons.prems(1)] by blast
  let ?acc = "if m' = 0 \<and> p' = 0 then acc else AList.update u (compare_test u m' p') acc"
  have run: "analyze_loop py_int main_data pr_data ts ?acc = Some comps"
    using Cons.prems(1) unfolding analyze_loop_step [OF g] .
  from Cons.prems(2,3) have u: "u \<notin> set ts" "u \<notin> fst ` set acc"
    and d: "distinct ts" and disj: "set ts \<inter> fst ` set acc = {}"
    by auto
  have keys: "map fst ?acc = (if m' = 0 \<and> p' = 0 then map fst acc else map fst acc @ [u])"
    using u(2) by (simp add: update_keys)
  have disj': "set ts \<inter> fst ` set ?acc = {}"
    using disj u(1) by (auto simp: dom_update)
  have ih: "map fst comps = map fst ?acc @ filter (\<lambda>t. t \<in> dom (map_of comps)) ts"
    by (rule Cons.IH [OF run d disj'])
  have in_dom: "u \<in> dom (map_of comps) \<longleftrightarrow> \<not> (m' = 0 \<and> p' = 0)"
  proof -
    have "map_of comps u = map_of ?acc u"
      using analyze_loop_lookup [OF run g] u(1) by simp
    moreover have "map_of acc u = None"
      using u(2) by (simp add: map_of_eq_None_iff)
    ultimately show ?thesis
      by (auto simp: update_conv')
  qed
  show ?case
    unfolding ih keys using in_dom by simp
qed

lemma tie_enumerations:
  "enumerates [fst tie_first, fst tie_second] tie_main tie_pr"
  "enumerates [fst tie_second, fst tie_first] tie_main tie_pr"
  by (auto simp: enumerates_def tie_first_def tie_second_def tie_main_def tie_pr_def)

lemma tie_runs:
  "analyze_comparisons Some tie_main tie_pr [fst tie_first, fst tie_second]
     = Some [tie_first, tie_second]"
  "analyze_comparisons Some tie_main tie_pr [fst tie_second, fst tie_first]
     = Some [tie_second, tie_first]"
  by code_simp+

text \<open>
  Claim C5 as stated fails. The two snapshots hold the tests
  \<^verbatim>\<open>testERC20Transfer_IthacaAccount\<close> and \<^verbatim>\<open>testERC20Transfer_IthacaAccountWithSpendLimits\<close>,
  both ten percent up. Either order is an iteration order of the set of the two names.
  With the first order the comparisons object lists the first test first, the category
  entry of \<^verbatim>\<open>testERC20Transfer\<close> holds the data of the second test (it was filed last
  under the same base test and account type), and the table of the report lists the
  first test first; with the second order all three are the other way round.
\<close>

theorem byte_identical_counterexample:
  "enumerates [fst tie_first, fst tie_second] tie_main tie_pr \<and>
   enumerates [fst tie_second, fst tie_first] tie_main tie_pr \<and>
   analyze Some tie_main tie_pr [fst tie_first, fst tie_second] =
     Some ([tie_first, tie_second],
           [(''single_transfer'',
             [(''testERC20Transfer'', \<lparr>ithaca = snd tie_second, comparisons = []\<rparr>)])]) \<and>
   analyze Some tie_main tie_pr [fst tie_second, fst tie_first] =
     Some ([tie_second, tie_first],
           [(''single_transfer'',
             [(''testERC20Transfer'', \<lparr>ithaca = snd tie_first, comparisons = []\<rparr>)])]) \<and>
   ithaca_sorted [tie_first, tie_second] = [tie_first, tie_second] \<and>
   ithaca_sorted [tie_second, tie_first] = [tie_second, tie_first] \<and>
   tie_first \<noteq> tie_second \<and> snd tie_first \<noteq> snd tie_second"
proof -
  have a1: "analyze Some tie_main tie_pr [fst tie_first, fst tie_second] =
     Some ([tie_first, tie_second],
           [(''single_transfer'',
             [(''testERC20Transfer'', \<lparr>ithaca = snd tie_second, comparisons = []\<rparr>)])])"
    by code_simp
  have a2: "analyze Some tie_main tie_pr [fst tie_second, fst tie_first] =
     Some ([tie_second, tie_first],
           [(''single_transfer'',
             [(''testERC20Transfer'', \<lparr>ithaca = snd tie_first, comparisons = []\<rparr>)])])"
    by code_simp
  have s1: "ithaca_sorted [tie_first, tie_second] = [tie_first, tie_second]"
    by code_simp
  have s2: "ithaca_sorted [tie_second, tie_first] = [tie_second, tie_first]"
    by code_simp
  have ne: "tie_first \<noteq> tie_second" "snd tie_first \<noteq> snd tie_second"
    by (simp_all add: tie_first_def tie_second_def)
  from tie_enumerations a1 a2 s1 s2 ne show ?thesis
    by blast
qed

text \<open>
  Claim C5 as amended. For two iteration orders of the identifiers of the same
  snapshots, both runs fail or both succeed, and when they succeed the two comparisons
  dictionaries hold the same entries, each identifier once with the same record, and
  the summary counts of the JSON artifact are the same. The order of the entries is
  the order of the iteration.
\<close>

theorem same_entries_in_any_order:
  assumes "enumerates ts1 main_data pr_data" and "enumerates ts2 main_data pr_data"
  shows "(analyze_comparisons py_int main_data pr_data ts1 = None \<longleftrightarrow>
            analyze_comparisons py_int main_data pr_data ts2 = None) \<and>
         (\<forall>c1 c2. analyze_comparisons py_int main_data pr_data ts1 = Some c1 \<and>
                  analyze_comparisons py_int main_data pr_data ts2 = Some c2 \<longrightarrow>
            map_of c1 = map_of c2 \<and> set c1 = set c2 \<and>
            distinct (map fst c1) \<and> distinct (map fst c2) \<and>
            map fst c1 = filter (\<lambda>t. t \<in> dom (map_of c1)) ts1 \<and>
            (\<forall>i1 i2. json_summary (generate_json_data c1 i1) =
                      json_summary (generate_json_data c2 i2)))"
proof -
  from assms have s: "set ts1 = dom main_data \<union> dom pr_data" "set ts2 = dom main_data \<union> dom pr_data"
    unfolding enumerates_def by simp_all
  have fails: "analyze_comparisons py_int main_data pr_data ts1 = None \<longleftrightarrow>
            analyze_comparisons py_int main_data pr_data ts2 = None"
    unfolding analyze_comparisons_def analyze_loop_fails_iff s ..
  have same: "map_of c1 = map_of c2 \<and> set c1 = set c2 \<and>
            distinct (map fst c1) \<and> distinct (map fst c2) \<and>
            map fst c1 = filter (\<lambda>t. t \<in> dom (map_of c1)) ts1 \<and>
            (\<forall>i1 i2. json_summary (generate_json_data c1 i1) =
                      json_summary (generate_json_data c2 i2))"
    if r1: "analyze_comparisons py_int main_data pr_data ts1 = Some c1"
      and r2: "analyze_comparisons py_int main_data pr_data ts2 = Some c2" for c1 c2
  proof -
    have m: "map_of c1 = map_of c2"
      using analyze_loop_same_map [OF s] r1 r2 unfolding analyze_comparisons_def by blast
    have d1: "distinct (map fst c1)" and d2: "distinct (map fst c2)"
      using analyze_loop_distinct r1 r2 unfolding analyze_comparisons_def by force+
    from m d1 d2 have e: "set c1 = set c2"
      by (simp add: map_of_inject_set)
    have o: "map fst c1 = filter (\<lambda>t. t \<in> dom (map_of c1)) ts1"
      using analyze_loop_order [OF r1 [unfolded analyze_comparisons_def]] assms(1)
      unfolding enumerates_def by simp
    have "json_summary (generate_json_data c1 i1) = json_summary (generate_json_data c2 i2)"
      for i1 i2
      unfolding summary_recomputed [OF d1] summary_recomputed [OF d2] m ..
    with m e d1 d2 o show ?thesis
      by blast
  qed
  from fails same show ?thesis
    by blast
qed


theorem same_entries_in_any_order_witness:
  "enumerates [fst tie_first, fst tie_second] tie_main tie_pr \<and>
   enumerates [fst tie_second, fst tie_first] tie_main tie_pr \<and>
   analyze_comparisons Some tie_main tie_pr [fst tie_first, fst tie_second]
     = Some [tie_first, tie_second] \<and>
   analyze_comparisons Some tie_main tie_pr [fst tie_second, fst tie_first]
     = Some [tie_second, tie_first] \<and>
   map_of [tie_first, tie_second] = map_of [tie_second, tie_first] \<and>
   set [tie_first, tie_second] = set [tie_second, tie_first] \<and>
   json_summary (generate_json_data [tie_first, tie_second] []) =
     json_summary (generate_json_data [tie_second, tie_first] [])"
proof -
  note same = same_entries_in_any_order [OF tie_enumerations, of Some]
  from same tie_runs
  have "map_of [tie_first, tie_second] = map_of [tie_second, tie_first] \<and>
      set [tie_first, tie_second] = set [tie_second, tie_first] \<and>
      json_summary (generate_json_data [tie_first, tie_second] []) =
        json_summary (generate_json_data [tie_second, tie_first] [])"
    by blast
  with tie_enumerations tie_runs show ?thesis
    by blast
qed

end
